theory Spec2Isabelle
  imports Complex_Main
begin

section \<open>The path planner of dart/planning/PathPlanner.h\<close>

text \<open>
  \<^verbatim>\<open>PathPlanner<R>\<close> is a class template over a tree class \<open>R\<close> (default \<open>RRT\<close>). It
  talks to three collaborators whose code is outside the planner: the robot
  (\<open>getPositions\<close>, \<open>setPositions\<close>), the world (\<open>checkCollision\<close>) and the tree class.
  The development takes each of them as a record of operations, so that
  everything proved of the planner holds for every tree class and every world, and gives
  one concrete tree class (section ``RRT'') for the runs that are evaluated.

  A configuration (\<open>Eigen::VectorXd\<close>) is a list of reals: the doubles of the source are
  idealised as reals, and nothing below depends on rounding.
\<close>

type_synonym config = "real list"

subsection \<open>Collaborators\<close>

text \<open>
  The robot and the world it lives in, as one state \<open>'w\<close>.
  \<open>getPositions dofs\<close> reads the listed degrees of freedom, \<open>setPositions dofs q\<close>
  writes them, \<open>checkCollision\<close> tests the world at the robot's current positions.
\<close>

record 'w model =
  getPositions :: "nat list \<Rightarrow> 'w \<Rightarrow> config"
  setPositions :: "nat list \<Rightarrow> config \<Rightarrow> 'w \<Rightarrow> 'w"
  checkCollision :: "'w \<Rightarrow> bool"

text \<open>
  The random engine \<open>mMT\<close> (\<open>std::mt19937\<close>) has a state \<open>'g\<close>; it is built from the
  number the random device \<open>mRD\<close> yields, and \<open>mDistribution(mMT)\<close> draws a real and
  advances the state.
\<close>

record 'g random =
  mt19937 :: "nat \<Rightarrow> 'g"
  mDistribution :: "'g \<Rightarrow> real \<times> 'g"

text \<open>The results of a single extension step; only \<open>STEP_REACHED\<close> is named by the planner.\<close>

datatype StepResult = STEP_TRAPPED | STEP_REACHED | STEP_ADVANCED

text \<open>
  The template parameter \<open>R\<close>: the members of the tree class that the planner uses, over
  a tree state \<open>'t\<close>. The constructor and \<open>reset\<close> receive the world, the degrees of
  freedom, the root configurations and the step size. \<open>connect\<close> is a loop of steps and
  may not return (\<open>None\<close>); the other members return.
  A tree works on its own picture of the robot: what it writes to the robot while it
  checks a configuration is overwritten when \<open>planPath\<close> restores the positions.
\<close>

record ('t, 'w) rrt_class =
  R_new :: "'w \<Rightarrow> nat list \<Rightarrow> config list \<Rightarrow> real \<Rightarrow> 't"
  R_reset :: "'t \<Rightarrow> 'w \<Rightarrow> nat list \<Rightarrow> config list \<Rightarrow> real \<Rightarrow> 't"
  R_getSize :: "'t \<Rightarrow> nat"
  R_getRandomConfig :: "'t \<Rightarrow> config \<times> 't"
  R_connect :: "config \<Rightarrow> 't \<Rightarrow> (bool \<times> 't) option"
  R_tryStep :: "config \<Rightarrow> 't \<Rightarrow> StepResult \<times> 't"
  R_getGap :: "config \<Rightarrow> 't \<Rightarrow> real"
  R_tracePath :: "nat \<Rightarrow> config list \<Rightarrow> bool \<Rightarrow> 't \<Rightarrow> config list"
  R_mActiveNode :: "'t \<Rightarrow> nat"
  R_mConfigs :: "'t \<Rightarrow> config list"

subsection \<open>The planner object\<close>

text \<open>
  The fields of \<open>PathPlanner\<close>. \<open>world\<close> and \<open>solver\<close> are handed to the tree class
  unchanged and are part of the world state and of the tree class here.
\<close>

record ('t, 'g) PathPlanner =
  connect :: bool
  bidirectional :: bool
  stepSize :: real
  goalBias :: real
  maxNodes :: nat
  start_rrt :: "'t option"
  goal_rrt :: "'t option"
  mMT :: 'g

text \<open>
  The constructor (lines 50-56). Its parameters are the world and the five settings;
  the engine is seeded with \<open>mRD()\<close>, the value \<open>rd\<close> of the random device at
  construction, which the caller does not choose.
\<close>

definition PathPlanner_new ::
  "'g random \<Rightarrow> nat \<Rightarrow> bool \<Rightarrow> bool \<Rightarrow> real \<Rightarrow> nat \<Rightarrow> real \<Rightarrow> ('t, 'g) PathPlanner" where
  "PathPlanner_new G rd bidirectional' connect' stepSize' maxNodes' goalBias' =
     \<lparr>connect = connect', bidirectional = bidirectional', stepSize = stepSize',
      goalBias = goalBias', maxNodes = maxNodes', start_rrt = None, goal_rrt = None,
      mMT = mt19937 G rd\<rparr>"

text \<open>
  Reading an element of a \<open>std::vector\<close> out of range is undefined in C++; the model
  stops with a fault there.
\<close>

datatype fault = OutOfRange

subsection \<open>Loops\<close>

text \<open>
  A \<open>while\<close> loop whose body may return from the function. One pass of the body
  either falls through to the next test of the guard (\<open>Continue\<close>), returns
  (\<open>Return\<close>), or hangs in a call that does not come back (\<open>NoReturn\<close>). When the
  guard fails the function returns what follows the loop. The loop itself may run for
  ever: its value is then \<open>None\<close>.
\<close>

datatype ('s, 'r) flow = Continue 's | Return 'r | NoReturn

partial_function (option) while_loop ::
  "('s \<Rightarrow> bool) \<Rightarrow> ('s \<Rightarrow> ('s, 'r) flow) \<Rightarrow> ('s \<Rightarrow> 'r) \<Rightarrow> 's \<Rightarrow> 'r option" where
  "while_loop guard body after s =
     (if guard s
      then (case body s of
              Continue s' \<Rightarrow> while_loop guard body after s'
            | Return r \<Rightarrow> Some r
            | NoReturn \<Rightarrow> None)
      else Some (after s))"

subsection \<open>planSingleTreeRrt (lines 175-225)\<close>

text \<open>
  The body of the loop (lines 193-217) on the tree \<open>t\<close>, the engine state \<open>g\<close> and
  \<open>numNodes\<close>. A return hands back the flag, the path, the tree and the engine state.
\<close>

definition planSingleTreeRrt_body ::
  "('t, 'w) rrt_class \<Rightarrow> 'g random \<Rightarrow> ('t, 'g) PathPlanner \<Rightarrow> config \<Rightarrow> config list \<Rightarrow>
   't \<times> 'g \<times> nat \<Rightarrow> ('t \<times> 'g \<times> nat, bool \<times> config list \<times> 't \<times> 'g) flow" where
  "planSingleTreeRrt_body R G P goal path = (\<lambda>(t, g, numNodes).
     case mDistribution G g of (randomValue, g1) \<Rightarrow>
       (case (if randomValue < goalBias P then (goal, t) else R_getRandomConfig R t) of
          (target, t1) \<Rightarrow>
            (case (if connect P then map_option snd (R_connect R target t1)
                   else Some (snd (R_tryStep R target t1))) of
               None \<Rightarrow> NoReturn
             | Some t2 \<Rightarrow>
                 if R_getGap R goal t2 < stepSize P
                 then Return (True, R_tracePath R (R_mActiveNode R t2) path False t2, t2, g1)
                 else Continue (t2, g1, R_getSize R t2))))"

definition planSingleTreeRrt ::
  "('t, 'w) rrt_class \<Rightarrow> 'g random \<Rightarrow> ('t, 'g) PathPlanner \<Rightarrow> 'w \<Rightarrow> nat list \<Rightarrow>
   config list \<Rightarrow> config \<Rightarrow> config list \<Rightarrow> (bool \<times> config list \<times> ('t, 'g) PathPlanner) option" where
  "planSingleTreeRrt R G P w dofs start goal path =
     (let t0 = (case start_rrt P of
                  None \<Rightarrow> R_new R w dofs start (stepSize P)
                | Some t \<Rightarrow> R_reset R t w dofs start (stepSize P))
      in case while_loop (\<lambda>(t, g, numNodes). numNodes \<le> maxNodes P)
                (planSingleTreeRrt_body R G P goal path)
                (\<lambda>(t, g, numNodes). (False, path, t, g))
                (t0, mMT P, R_getSize R t0) of
           None \<Rightarrow> None
         | Some (res, path', t', g') \<Rightarrow>
             Some (res, path', P\<lparr>start_rrt := Some t', mMT := g'\<rparr>))"

subsection \<open>planBidirectionalRrt (lines 228-314)\<close>

text \<open>
  \<open>rrt1\<close> and \<open>rrt2\<close> point to the two trees and are swapped at the head of every
  pass: \<open>fwd\<close> tells whether \<open>rrt1\<close> is the start tree, and \<open>ts\<close>, \<open>tg\<close> are the
  start tree and the goal tree themselves. The body is lines 259-297.
\<close>

definition planBidirectionalRrt_body ::
  "('t, 'w) rrt_class \<Rightarrow> 'g random \<Rightarrow> ('t, 'g) PathPlanner \<Rightarrow> config list \<Rightarrow> config list \<Rightarrow>
   bool \<times> 't \<times> 't \<times> 'g \<times> nat \<Rightarrow>
   (bool \<times> 't \<times> 't \<times> 'g \<times> nat, fault + bool \<times> config list \<times> 't \<times> 't \<times> 'g) flow" where
  "planBidirectionalRrt_body R G P goal path = (\<lambda>(fwd, ts, tg, g, numNodes).
     let fwd' = (\<not> fwd); rrt1 = (if fwd' then ts else tg); rrt2 = (if fwd' then tg else ts)
     in case mDistribution G g of (randomValue, g1) \<Rightarrow>
       if randomValue < goalBias P \<and> goal = [] then Return (Inl OutOfRange)
       else
       (case (if randomValue < goalBias P then (goal ! 0, rrt1)
              else R_getRandomConfig R rrt1) of
          (target, rrt1a) \<Rightarrow>
            (case (if connect P then map_option snd (R_connect R target rrt1a)
                   else Some (snd (R_tryStep R target rrt1a))) of
               None \<Rightarrow> NoReturn
             | Some rrt1b \<Rightarrow>
                 if \<not> R_mActiveNode R rrt1b < length (R_mConfigs R rrt1b)
                 then Return (Inl OutOfRange)
                 else
                 (let rrt2target = R_mConfigs R rrt1b ! R_mActiveNode R rrt1b
                  in case (if connect P then R_connect R rrt2target rrt2
                           else (case R_tryStep R rrt2target rrt2 of
                                   (r, rrt2b) \<Rightarrow> Some (r = STEP_REACHED, rrt2b))) of
                       None \<Rightarrow> NoReturn
                     | Some (treesMet, rrt2b) \<Rightarrow>
                         (let ts' = (if fwd' then rrt1b else rrt2b);
                              tg' = (if fwd' then rrt2b else rrt1b)
                          in if treesMet
                             then Return (Inr (True,
                                    R_tracePath R (R_mActiveNode R tg')
                                      (R_tracePath R (R_mActiveNode R ts') path False ts')
                                      True tg',
                                    ts', tg', g1))
                             else Continue (fwd', ts', tg', g1,
                                    R_getSize R rrt1b + R_getSize R rrt2b))))))"

definition planBidirectionalRrt ::
  "('t, 'w) rrt_class \<Rightarrow> 'g random \<Rightarrow> ('t, 'g) PathPlanner \<Rightarrow> 'w \<Rightarrow> nat list \<Rightarrow>
   config list \<Rightarrow> config list \<Rightarrow> config list \<Rightarrow>
   (fault + bool \<times> config list \<times> ('t, 'g) PathPlanner) option" where
  "planBidirectionalRrt R G P w dofs start goal path =
     (let ts0 = (case start_rrt P of
                   None \<Rightarrow> R_new R w dofs start (stepSize P)
                 | Some t \<Rightarrow> R_reset R t w dofs start (stepSize P));
          tg0 = (case goal_rrt P of
                   None \<Rightarrow> R_new R w dofs goal (stepSize P)
                 | Some t \<Rightarrow> R_reset R t w dofs goal (stepSize P))
      in case while_loop (\<lambda>(fwd, ts, tg, g, numNodes). numNodes < maxNodes P)
                (planBidirectionalRrt_body R G P goal path)
                (\<lambda>(fwd, ts, tg, g, numNodes). Inr (False, path, ts, tg, g))
                (True, ts0, tg0, mMT P, R_getSize R ts0 + R_getSize R tg0) of
           None \<Rightarrow> None
         | Some (Inl e) \<Rightarrow> Some (Inl e)
         | Some (Inr (res, path', ts', tg', g')) \<Rightarrow>
             Some (Inr (res, path',
                        P\<lparr>start_rrt := Some ts', goal_rrt := Some tg', mMT := g'\<rparr>)))"

subsection \<open>planPath (lines 111-172)\<close>

text \<open>
  The two sifting loops (lines 124-129 and 139-144): every candidate is written to the
  robot and kept when the world reports no collision.
\<close>

definition sift :: "'w model \<Rightarrow> nat list \<Rightarrow> config list \<Rightarrow> 'w \<Rightarrow> config list \<times> 'w" where
  "sift E dofs qs w =
     foldl (\<lambda>(feasible, w0) q.
              let w1 = setPositions E dofs q w0
              in (if \<not> checkCollision E w1 then feasible @ [q] else feasible, w1))
           ([], w) qs"

text \<open>
  What a call leaves behind: the returned flag, the path list, the planner object, the
  world and the warnings written to \<open>dtwarn\<close>.
\<close>

record ('t, 'g, 'w) outcome =
  result :: bool
  path_out :: "config list"
  planner_out :: "('t, 'g) PathPlanner"
  world_out :: 'w
  warnings :: "string list"

definition planPath ::
  "'w model \<Rightarrow> ('t, 'w) rrt_class \<Rightarrow> 'g random \<Rightarrow> ('t, 'g) PathPlanner \<Rightarrow> 'w \<Rightarrow> nat list \<Rightarrow>
   config list \<Rightarrow> config list \<Rightarrow> config list \<Rightarrow> (fault + ('t, 'g, 'w) outcome) option" where
  "planPath E R G P w dofs start goal path =
     (let savedConfiguration = getPositions E dofs w;
          (feasibleStart, w1) = sift E dofs start w
      in if feasibleStart = []
         then Some (Inr \<lparr>result = False, path_out = path, planner_out = P, world_out = w1,
                 warnings = [''WARNING: PathPlanner: Feasible start points are empty!'']\<rparr>)
         else
           (let (feasibleGoal, w2) = sift E dofs goal w1
            in if feasibleGoal = []
               then Some (Inr \<lparr>result = False, path_out = path, planner_out = P, world_out = w2,
                       warnings = [''WARNING: PathPlanner: Feasible goal points are empty!'']\<rparr>)
               else if bidirectional P
               then (case planBidirectionalRrt R G P w2 dofs feasibleStart feasibleGoal path of
                       None \<Rightarrow> None
                     | Some (Inl e) \<Rightarrow> Some (Inl e)
                     | Some (Inr (res, path', P')) \<Rightarrow>
                         Some (Inr \<lparr>result = res, path_out = path', planner_out = P',
                                 world_out = setPositions E dofs savedConfiguration w2,
                                 warnings = []\<rparr>))
               else (case planSingleTreeRrt R G P w2 dofs feasibleStart (hd feasibleGoal) path of
                       None \<Rightarrow> None
                     | Some (res, path', P') \<Rightarrow>
                         Some (Inr \<lparr>result = res, path_out = path', planner_out = P',
                                 world_out = setPositions E dofs savedConfiguration w2,
                                 warnings = (if length feasibleGoal > 1
                                   then [''WARNING: planPath is using ONLY the first goal!'']
                                   else [])\<rparr>))))"

text \<open>
  What the caller sees of a call that came back without fault: the flag and the path
  (the result of \<open>planPath\<close> in section 6 of the specification).
\<close>

definition returned :: "(fault + ('t, 'g, 'w) outcome) option \<Rightarrow> (bool \<times> config list) option" where
  "returned r = (case r of Some (Inr out) \<Rightarrow> Some (result out, path_out out) | _ \<Rightarrow> None)"


section \<open>The tree class RRT\<close>

text \<open>
  Modelled from the spec: the tree class \<open>RRT\<close> (dart/planning/RRT.h, which the planner
  includes; its code is missing). The definitions follow sections 3, 4.1,
  4.2, 4.3 and 4.6 of the specification: an arena of nodes with parent links and several
  roots, the active node, the distance \<open>gap\<close>, \<open>tryStep\<close>, \<open>connect\<close>, the sampler and
  \<open>tracePath\<close>.
\<close>

text \<open>Modelled from the spec: \<open>gap\<close>, the Euclidean distance over joint values (4.3).\<close>

definition gap :: "config \<Rightarrow> config \<Rightarrow> real" where
  "gap a b = sqrt (\<Sum>(x, y) \<leftarrow> zip a b. (x - y)\<^sup>2)"

text \<open>
  Modelled from the spec: the tree (section 3). A node is an index into the arena; its
  parent reference is \<open>None\<close> for a root. The tree keeps its step size, its validity
  oracle and the state \<open>'s\<close> of its sampler.
\<close>

record 's tree =
  mConfigs :: "config list"
  mParentVector :: "nat option list"
  mActiveNode :: nat
  mStepSize :: real
  isValid :: "config \<Rightarrow> bool"
  mSampler :: 's

text \<open>
  Modelled from the spec: the constructor and \<open>reset\<close> (4.4: one node per root
  configuration, each without parent; the active node is the node inserted last). The
  validity oracle (4.2) sets the robot to the configuration and asks the world for a
  collision. \<open>reset\<close> keeps the sampler's state.
\<close>

definition RRT_new ::
  "'w model \<Rightarrow> 's \<Rightarrow> 'w \<Rightarrow> nat list \<Rightarrow> config list \<Rightarrow> real \<Rightarrow> 's tree" where
  "RRT_new E s0 w dofs roots step =
     \<lparr>mConfigs = roots, mParentVector = map (\<lambda>_. None) roots,
      mActiveNode = length roots - 1, mStepSize = step,
      isValid = (\<lambda>q. \<not> checkCollision E (setPositions E dofs q w)),
      mSampler = s0\<rparr>"

definition RRT_reset ::
  "'w model \<Rightarrow> 's tree \<Rightarrow> 'w \<Rightarrow> nat list \<Rightarrow> config list \<Rightarrow> real \<Rightarrow> 's tree" where
  "RRT_reset E t w dofs roots step = RRT_new E (mSampler t) w dofs roots step"

definition RRT_getSize :: "'s tree \<Rightarrow> nat" where
  "RRT_getSize t = length (mConfigs t)"

text \<open>Modelled from the spec: \<open>getRandomConfig\<close> (4.1) draws from the sampler and advances it.\<close>

definition RRT_getRandomConfig :: "('s \<Rightarrow> config \<times> 's) \<Rightarrow> 's tree \<Rightarrow> config \<times> 's tree" where
  "RRT_getRandomConfig sampler t =
     (case sampler (mSampler t) of (q, s') \<Rightarrow> (q, t\<lparr>mSampler := s'\<rparr>))"

text \<open>
  Modelled from the spec: the nearest node by a linear scan (4.3); of several nearest
  nodes the first one.
\<close>

fun nearest :: "config \<Rightarrow> config list \<Rightarrow> nat" where
  "nearest target [] = 0"
| "nearest target [q] = 0"
| "nearest target (q # qs) =
     (let j = nearest target qs
      in if gap q target \<le> gap (qs ! j) target then 0 else Suc j)"

text \<open>
  Modelled from the spec: \<open>tryStep\<close> (4.3, steps 1 to 4). The candidate lies at distance
  \<open>min stepSize (gap nearest target)\<close> from the nearest node toward the target. A tree
  without nodes has no nearest node and inserts nothing.
\<close>

definition RRT_tryStep :: "config \<Rightarrow> 's tree \<Rightarrow> StepResult \<times> 's tree" where
  "RRT_tryStep target t =
     (if mConfigs t = [] then (STEP_TRAPPED, t)
      else
      (let near = nearest target (mConfigs t);
           qnear = mConfigs t ! near;
           d = gap qnear target;
           candidate = (if d = 0 then qnear
                        else map (\<lambda>(a, b). a + min (mStepSize t) d / d * (b - a)) (zip qnear target))
       in if \<not> isValid t candidate then (STEP_TRAPPED, t)
          else (if candidate = target then STEP_REACHED else STEP_ADVANCED,
                t\<lparr>mConfigs := mConfigs t @ [candidate],
                  mParentVector := mParentVector t @ [Some near],
                  mActiveNode := length (mConfigs t)\<rparr>)))"

text \<open>
  Modelled from the spec: \<open>connect\<close> (4.3) repeats \<open>tryStep\<close> until it is trapped or has
  reached the target, and tells whether it has reached it.
\<close>

partial_function (option) RRT_connect :: "config \<Rightarrow> 's tree \<Rightarrow> (bool \<times> 's tree) option" where
  "RRT_connect target t =
     (case RRT_tryStep target t of
        (STEP_TRAPPED, t') \<Rightarrow> Some (False, t')
      | (STEP_REACHED, t') \<Rightarrow> Some (True, t')
      | (STEP_ADVANCED, t') \<Rightarrow> RRT_connect target t')"

text \<open>Modelled from the spec: \<open>getGap\<close> is the gap between the active node and the target (4.4, step 3).\<close>

definition RRT_getGap :: "config \<Rightarrow> 's tree \<Rightarrow> real" where
  "RRT_getGap target t = gap (mConfigs t ! mActiveNode t) target"

text \<open>
  Modelled from the spec: the parent chain of a node, from the node to its root (4.6).
  Nodes are only ever appended, so a parent has a smaller index than its child; the walk
  stops at a node without parent.
\<close>

function parentChain :: "nat option list \<Rightarrow> nat \<Rightarrow> nat list" where
  "parentChain ps n =
     (if n < length ps
      then (case ps ! n of
              None \<Rightarrow> [n]
            | Some p \<Rightarrow> if p < n then n # parentChain ps p else [n])
      else [])"
  by pat_completeness auto
termination
  by (relation "measure snd") auto

declare parentChain.simps [simp del]

text \<open>
  Modelled from the spec: the configurations on the chain of a node, in node-to-root
  order, and \<open>tracePath\<close> (4.6), which produces them in root-to-node order, or in
  node-to-root order when \<open>reverse\<close> is set. The reverse trace is appended to the list
  (4.5, step 4); the default trace is put in front of what the list holds.
\<close>

definition nodeToRoot :: "'s tree \<Rightarrow> nat \<Rightarrow> config list" where
  "nodeToRoot t node = map (\<lambda>i. mConfigs t ! i) (parentChain (mParentVector t) node)"

definition RRT_tracePath :: "nat \<Rightarrow> config list \<Rightarrow> bool \<Rightarrow> 's tree \<Rightarrow> config list" where
  "RRT_tracePath node path reverse t =
     (if reverse then path @ nodeToRoot t node else rev (nodeToRoot t node) @ path)"

definition RRT :: "'w model \<Rightarrow> ('s \<Rightarrow> config \<times> 's) \<Rightarrow> 's \<Rightarrow> ('s tree, 'w) rrt_class" where
  "RRT E sampler s0 =
     \<lparr>R_new = RRT_new E s0, R_reset = RRT_reset E, R_getSize = RRT_getSize,
      R_getRandomConfig = RRT_getRandomConfig sampler, R_connect = RRT_connect,
      R_tryStep = RRT_tryStep, R_getGap = RRT_getGap, R_tracePath = RRT_tracePath,
      R_mActiveNode = mActiveNode, R_mConfigs = mConfigs\<rparr>"

section \<open>A world and an engine for the runs that are evaluated\<close>

text \<open>
  A robot on which every degree of freedom is planned: the world state is the position
  vector, and \<open>blocked\<close> tells which positions collide.
\<close>

definition lineWorld :: "(config \<Rightarrow> bool) \<Rightarrow> config model" where
  "lineWorld blocked =
     \<lparr>getPositions = (\<lambda>dofs w. w), setPositions = (\<lambda>dofs q w. q), checkCollision = blocked\<rparr>"

text \<open>A line on which only the positions 0 and 5 are free of collision.\<close>

definition boxedWorld :: "config model" where
  "boxedWorld = lineWorld (\<lambda>q. q \<noteq> [0] \<and> q \<noteq> [5])"

text \<open>A line on which every position beyond 1 collides.\<close>

definition walledWorld :: "config model" where
  "walledWorld = lineWorld (\<lambda>q. case q of [] \<Rightarrow> False | x # _ \<Rightarrow> 1 < x)"

text \<open>A line without obstacles.\<close>

definition freeWorld :: "config model" where
  "freeWorld = lineWorld (\<lambda>q. False)"

text \<open>
  An engine whose state is a counter: seeded with \<open>rd\<close> it starts at \<open>rd\<close>, and the
  draw at counter \<open>n\<close> is \<open>(n mod 10) / 10\<close>.
\<close>

definition counterEngine :: "nat random" where
  "counterEngine = \<lparr>mt19937 = (\<lambda>rd. rd), mDistribution = (\<lambda>n. (real (n mod 10) / 10, Suc n))\<rparr>"

text \<open>
  A sampler over one degree of freedom with the bounds 0 and 5: the draw at \<open>n\<close> is
  \<open>5 / (n + 2)\<close>, strictly between the bounds.
\<close>

definition lineSampler :: "nat \<Rightarrow> config \<times> nat" where
  "lineSampler n = ([5 / real (n + 2)], Suc n)"

text \<open>
  The sequence of draws an engine yields from a state, and two engines, each in its
  state, that yield the same sequence.
\<close>

fun draws :: "'g random \<Rightarrow> 'g \<Rightarrow> nat \<Rightarrow> real" where
  "draws G g 0 = fst (mDistribution G g)"
| "draws G g (Suc k) = draws G (snd (mDistribution G g)) k"

definition sameDraws :: "'g random \<Rightarrow> 'g \<Rightarrow> 'h random \<Rightarrow> 'h \<Rightarrow> bool" where
  "sameDraws G1 g1 G2 g2 \<longleftrightarrow> (\<forall>k. draws G1 g1 k = draws G2 g2 k)"

text \<open>
  The trees of a run on \<open>boxedWorld\<close> from 0 to 5 with steps of 1 that have not grown:
  the start tree holds the root 0 only, the goal tree the root 5 only.
\<close>

definition boxedStart :: "nat tree \<Rightarrow> bool" where
  "boxedStart t \<longleftrightarrow> mConfigs t = [[0]] \<and> mActiveNode t = 0 \<and> mStepSize t = 1 \<and>
     (\<forall>q. isValid t q = (q = [0] \<or> q = [5]))"

definition boxedGoal :: "nat tree \<Rightarrow> bool" where
  "boxedGoal t \<longleftrightarrow> mConfigs t = [[5]] \<and> mActiveNode t = 0 \<and> mStepSize t = 1 \<and>
     (\<forall>q. isValid t q = (q = [0] \<or> q = [5]))"

text \<open>
  A bidirectional planner on \<open>walledWorld\<close> with steps of 1, bias 3/10 and an engine
  seeded with 5 (first draw 1/2, so the first target is a random one), and its two trees
  for the start 0 and the goal 1.
\<close>

definition walledStart :: "nat tree" where
  "walledStart = RRT_new walledWorld 0 [1] [0] [[0]] 1"

definition walledGoal :: "nat tree" where
  "walledGoal = RRT_new walledWorld 0 [1] [0] [[1]] 1"

definition walledPlanner :: "(nat tree, nat) PathPlanner" where
  "walledPlanner = PathPlanner_new counterEngine 5 True False 1 10 (3 / 10)"

text \<open>
  The shape every tree of class \<open>RRT\<close> with at least one root keeps: the active node is
  a node of the arena, and every node has its entry in the parent vector.
\<close>

definition treeOk :: "'s tree \<Rightarrow> bool" where
  "treeOk t \<longleftrightarrow> mActiveNode t < length (mConfigs t) \<and>
     length (mParentVector t) = length (mConfigs t)"

section \<open>Properties\<close>

subsection \<open>Reasoning about loops\<close>

text \<open>
  An invariant rule for a loop that comes back, and a rule for a loop that does not:
  when every pass from an invariant state continues into an invariant state, the loop
  has no value.
\<close>

lemma while_loop_rule:
  assumes run: "while_loop c b a s = Some r"
    and init: "I s"
    and step: "\<And>s s'. I s \<Longrightarrow> c s \<Longrightarrow> b s = Continue s' \<Longrightarrow> I s'"
    and ret: "\<And>s r. I s \<Longrightarrow> c s \<Longrightarrow> b s = Return r \<Longrightarrow> Q r"
    and exit: "\<And>s. I s \<Longrightarrow> \<not> c s \<Longrightarrow> Q (a s)"
  shows "Q r"
proof -
  let ?P = "\<lambda>c' b' a' s r. c' = c \<and> b' = b \<and> a' = a \<longrightarrow> I s \<longrightarrow> Q r"
  have "?P c b a s r"
  proof (rule while_loop.raw_induct[where P = ?P, OF _ run])
    fix w c' b' a' s r
    assume IH: "\<And>c' b' a' s r. w c' b' a' s = Some r \<Longrightarrow> ?P c' b' a' s r"
      and body: "(if c' s then case b' s of Continue s' \<Rightarrow> w c' b' a' s' | Return r \<Rightarrow> Some r
                    | NoReturn \<Rightarrow> None else Some (a' s)) = Some r"
    show "?P c' b' a' s r"
    proof (intro impI)
      assume eq: "c' = c \<and> b' = b \<and> a' = a" and Is: "I s"
      then have [simp]: "c' = c" "b' = b" "a' = a" by simp_all
      show "Q r"
      proof (cases "c s")
        case False
        with body exit[OF Is] show ?thesis by simp
      next
        case True
        show ?thesis
        proof (cases "b s")
          case (Continue s')
          with True body have "w c b a s' = Some r" by simp
          from IH[OF this] step[OF Is True Continue] show ?thesis by simp
        next
          case (Return r')
          with True body ret[OF Is True Return] show ?thesis by simp
        next
          case NoReturn
          with True body show ?thesis by simp
        qed
      qed
    qed
  qed
  with init show ?thesis by simp
qed

lemma while_loop_diverges:
  assumes init: "I s"
    and step: "\<And>s. I s \<Longrightarrow> c s \<and> (b s = NoReturn \<or> (\<exists>s'. b s = Continue s' \<and> I s'))"
  shows "while_loop c b a s = None"
proof (rule ccontr)
  assume "while_loop c b a s \<noteq> None"
  then obtain r where run: "while_loop c b a s = Some r" by auto
  show False
  proof (rule while_loop_rule[OF run, where I = I and Q = "\<lambda>_. False"])
    show "I s" by (rule init)
  next
    fix s s' assume "I s" "c s" "b s = Continue s'"
    with step[of s] show "I s'" by auto
  next
    fix s r assume "I s" "c s" "b s = Return r"
    with step[of s] show False by auto
  next
    fix s assume "I s" "\<not> c s"
    with step[of s] show False by auto
  qed
qed

text \<open>
  Two loops whose states stay related pass by pass either both run for ever or both
  return, with related results.
\<close>

lemma while_loop_simulates:
  assumes run: "while_loop c1 b1 a1 s1 = Some r1"
    and rel: "Rel s1 s2"
    and guard: "\<And>s1 s2. Rel s1 s2 \<Longrightarrow> c1 s1 = c2 s2"
    and body: "\<And>s1 s2. Rel s1 s2 \<Longrightarrow> c1 s1 \<Longrightarrow> rel_flow Rel Q (b1 s1) (b2 s2)"
    and exit: "\<And>s1 s2. Rel s1 s2 \<Longrightarrow> \<not> c1 s1 \<Longrightarrow> Q (a1 s1) (a2 s2)"
  shows "\<exists>r2. while_loop c2 b2 a2 s2 = Some r2 \<and> Q r1 r2"
proof -
  let ?P = "\<lambda>c b a s r. c = c1 \<and> b = b1 \<and> a = a1 \<longrightarrow>
              (\<forall>s2. Rel s s2 \<longrightarrow> (\<exists>r2. while_loop c2 b2 a2 s2 = Some r2 \<and> Q r r2))"
  have "?P c1 b1 a1 s1 r1"
  proof (rule while_loop.raw_induct[where P = ?P, OF _ run])
    fix w c b a s r
    assume IH: "\<And>c b a s r. w c b a s = Some r \<Longrightarrow> ?P c b a s r"
      and unfold: "(if c s then case b s of Continue s' \<Rightarrow> w c b a s' | Return r \<Rightarrow> Some r
                    | NoReturn \<Rightarrow> None else Some (a s)) = Some r"
    show "?P c b a s r"
    proof (intro impI allI)
      fix s2
      assume eq: "c = c1 \<and> b = b1 \<and> a = a1" and R: "Rel s s2"
      then have [simp]: "c = c1" "b = b1" "a = a1" by simp_all
      show "\<exists>r2. while_loop c2 b2 a2 s2 = Some r2 \<and> Q r r2"
      proof (cases "c1 s")
        case False
        with guard[OF R] have "\<not> c2 s2" by simp
        then have "while_loop c2 b2 a2 s2 = Some (a2 s2)" by (subst while_loop.simps) simp
        moreover from unfold False have "r = a1 s" by simp
        ultimately show ?thesis using exit[OF R False] by simp
      next
        case True
        with guard[OF R] have c2: "c2 s2" by simp
        from body[OF R True] show ?thesis
        proof (cases rule: flow.rel_cases)
          case (Continue s' s2')
          with True unfold have "w c1 b1 a1 s' = Some r" by simp
          from IH[OF this] Continue obtain r2
            where "while_loop c2 b2 a2 s2' = Some r2" "Q r r2" by blast
          moreover have "while_loop c2 b2 a2 s2 = while_loop c2 b2 a2 s2'"
            using c2 Continue by (subst while_loop.simps) simp
          ultimately show ?thesis by simp
        next
          case (Return x y)
          with True unfold have "r = x" by simp
          moreover have "while_loop c2 b2 a2 s2 = Some y"
            using c2 Return by (subst while_loop.simps) simp
          ultimately show ?thesis using Return by simp
        next
          case NoReturn
          with True unfold show ?thesis by simp
        qed
      qed
    qed
  qed
  with rel show ?thesis by simp
qed

lemma while_loop_related:
  assumes rel: "Rel s1 s2"
    and guard: "\<And>s1 s2. Rel s1 s2 \<Longrightarrow> c1 s1 = c2 s2"
    and body: "\<And>s1 s2. Rel s1 s2 \<Longrightarrow> c1 s1 \<Longrightarrow> rel_flow Rel Q (b1 s1) (b2 s2)"
    and exit: "\<And>s1 s2. Rel s1 s2 \<Longrightarrow> \<not> c1 s1 \<Longrightarrow> Q (a1 s1) (a2 s2)"
  shows "rel_option Q (while_loop c1 b1 a1 s1) (while_loop c2 b2 a2 s2)"
proof (cases "while_loop c1 b1 a1 s1")
  case (Some r1)
  have "\<exists>r2. while_loop c2 b2 a2 s2 = Some r2 \<and> Q r1 r2"
  proof (rule while_loop_simulates[where Rel = Rel and ?s2.0 = s2, OF Some])
    show "Rel s1 s2" by (rule rel)
  next
    fix t1 t2 assume "Rel t1 t2"
    then show "c1 t1 = c2 t2" by (rule guard)
  next
    fix t1 t2 assume "Rel t1 t2" "c1 t1"
    then show "rel_flow Rel Q (b1 t1) (b2 t2)" by (rule body)
  next
    fix t1 t2 assume "Rel t1 t2" "\<not> c1 t1"
    then show "Q (a1 t1) (a2 t2)" by (rule exit)
  qed
  with Some show ?thesis by auto
next
  case None
  show ?thesis
  proof (cases "while_loop c2 b2 a2 s2")
    case none2: None
    with None show ?thesis by simp
  next
    case (Some r2)
    have "\<exists>r1. while_loop c1 b1 a1 s1 = Some r1 \<and> Q\<inverse>\<inverse> r2 r1"
    proof (rule while_loop_simulates[where Rel = "Rel\<inverse>\<inverse>" and ?s2.0 = s1, OF Some])
      show "Rel\<inverse>\<inverse> s2 s1" using rel by simp
    next
      fix t2 t1 assume "Rel\<inverse>\<inverse> t2 t1"
      then show "c2 t2 = c1 t1" using guard[of t1 t2] by simp
    next
      fix t2 t1 assume r: "Rel\<inverse>\<inverse> t2 t1" and c: "c2 t2"
      then have "c1 t1" using guard[of t1 t2] by simp
      with r body[of t1 t2] have "rel_flow Rel Q (b1 t1) (b2 t2)" by simp
      then show "rel_flow Rel\<inverse>\<inverse> Q\<inverse>\<inverse> (b2 t2) (b1 t1)"
        by (simp add: flow.rel_flip)
    next
      fix t2 t1 assume r: "Rel\<inverse>\<inverse> t2 t1" and c: "\<not> c2 t2"
      then have "\<not> c1 t1" using guard[of t1 t2] by simp
      with r exit[of t1 t2] show "Q\<inverse>\<inverse> (a2 t2) (a1 t1)" by simp
    qed
    with None show ?thesis by simp
  qed
qed

subsection \<open>Evaluating concrete runs\<close>

lemma gap_line: "gap [a] [b] = \<bar>a - b\<bar>"
  by (simp add: gap_def)

lemmas run_defs = planPath_def sift_def planSingleTreeRrt_def planBidirectionalRrt_def
  planSingleTreeRrt_body_def planBidirectionalRrt_body_def while_loop.simps
  PathPlanner_new_def returned_def
  RRT_def RRT_new_def RRT_reset_def RRT_getSize_def RRT_getRandomConfig_def RRT_tryStep_def
  RRT_getGap_def RRT_tracePath_def nodeToRoot_def RRT_connect.simps parentChain.simps gap_line
  lineWorld_def counterEngine_def lineSampler_def Let_def

lemmas ex_defs = freeWorld_def walledWorld_def boxedWorld_def walledStart_def walledGoal_def
  walledPlanner_def

subsection \<open>One pass of a loop body, step by step\<close>

lemma RRT_members:
  "R_new (RRT E sampler s0) = RRT_new E s0"
  "R_reset (RRT E sampler s0) = RRT_reset E"
  "R_getSize (RRT E sampler s0) = RRT_getSize"
  "R_getRandomConfig (RRT E sampler s0) = RRT_getRandomConfig sampler"
  "R_connect (RRT E sampler s0) = RRT_connect"
  "R_tryStep (RRT E sampler s0) = RRT_tryStep"
  "R_getGap (RRT E sampler s0) = RRT_getGap"
  "R_tracePath (RRT E sampler s0) = RRT_tracePath"
  "R_mActiveNode (RRT E sampler s0) = mActiveNode"
  "R_mConfigs (RRT E sampler s0) = mConfigs"
  by (simp_all add: RRT_def)

lemma planSingleTreeRrt_body_pass:
  assumes "mDistribution G g = (randomValue, g1)"
    and "(if randomValue < goalBias P then (goal, t) else R_getRandomConfig R t) = (target, t1)"
    and "(if connect P then map_option snd (R_connect R target t1)
          else Some (snd (R_tryStep R target t1))) = Some t2"
  shows "planSingleTreeRrt_body R G P goal path (t, g, numNodes) =
           (if R_getGap R goal t2 < stepSize P
            then Return (True, R_tracePath R (R_mActiveNode R t2) path False t2, t2, g1)
            else Continue (t2, g1, R_getSize R t2))"
  using assms by (simp add: planSingleTreeRrt_body_def)

lemma planBidirectionalRrt_body_pass:
  assumes "mDistribution G g = (randomValue, g1)"
    and "\<not> (randomValue < goalBias P \<and> goal = [])"
    and "(if randomValue < goalBias P then (goal ! 0, if fwd then tg else ts)
          else R_getRandomConfig R (if fwd then tg else ts)) = (target, rrt1a)"
    and "(if connect P then map_option snd (R_connect R target rrt1a)
          else Some (snd (R_tryStep R target rrt1a))) = Some rrt1b"
    and "R_mActiveNode R rrt1b < length (R_mConfigs R rrt1b)"
    and "(if connect P
          then R_connect R (R_mConfigs R rrt1b ! R_mActiveNode R rrt1b) (if fwd then ts else tg)
          else (case R_tryStep R (R_mConfigs R rrt1b ! R_mActiveNode R rrt1b)
                       (if fwd then ts else tg) of
                  (r, rrt2b) \<Rightarrow> Some (r = STEP_REACHED, rrt2b))) = Some (treesMet, rrt2b)"
  shows "planBidirectionalRrt_body R G P goal path (fwd, ts, tg, g, numNodes) =
           (if treesMet
            then Return (Inr (True,
                   R_tracePath R (R_mActiveNode R (if fwd then rrt1b else rrt2b))
                     (R_tracePath R (R_mActiveNode R (if fwd then rrt2b else rrt1b)) path False
                        (if fwd then rrt2b else rrt1b))
                     True (if fwd then rrt1b else rrt2b),
                   if fwd then rrt2b else rrt1b, if fwd then rrt1b else rrt2b, g1))
            else Continue (\<not> fwd, if fwd then rrt2b else rrt1b, if fwd then rrt1b else rrt2b, g1,
                   R_getSize R rrt1b + R_getSize R rrt2b))"
  using assms
  by (cases fwd; cases "randomValue < goalBias P"; cases "connect P")
     (auto simp: planBidirectionalRrt_body_def Let_def)

lemma planBidirectionalRrt_body_no_goal:
  assumes "mDistribution G g = (randomValue, g1)"
    and "randomValue < goalBias P \<and> goal = []"
  shows "planBidirectionalRrt_body R G P goal path (fwd, ts, tg, g, numNodes) = Return (Inl OutOfRange)"
  using assms by (simp add: planBidirectionalRrt_body_def Let_def)

lemma planBidirectionalRrt_body_hangs_first:
  assumes "mDistribution G g = (randomValue, g1)"
    and "\<not> (randomValue < goalBias P \<and> goal = [])"
    and "(if randomValue < goalBias P then (goal ! 0, if fwd then tg else ts)
          else R_getRandomConfig R (if fwd then tg else ts)) = (target, rrt1a)"
    and "(if connect P then map_option snd (R_connect R target rrt1a)
          else Some (snd (R_tryStep R target rrt1a))) = None"
  shows "planBidirectionalRrt_body R G P goal path (fwd, ts, tg, g, numNodes) = NoReturn"
  using assms
  by (cases fwd; cases "randomValue < goalBias P"; cases "connect P")
     (auto simp: planBidirectionalRrt_body_def Let_def)

lemma planBidirectionalRrt_body_no_active:
  assumes "mDistribution G g = (randomValue, g1)"
    and "\<not> (randomValue < goalBias P \<and> goal = [])"
    and "(if randomValue < goalBias P then (goal ! 0, if fwd then tg else ts)
          else R_getRandomConfig R (if fwd then tg else ts)) = (target, rrt1a)"
    and "(if connect P then map_option snd (R_connect R target rrt1a)
          else Some (snd (R_tryStep R target rrt1a))) = Some rrt1b"
    and "\<not> R_mActiveNode R rrt1b < length (R_mConfigs R rrt1b)"
  shows "planBidirectionalRrt_body R G P goal path (fwd, ts, tg, g, numNodes) = Return (Inl OutOfRange)"
  using assms
  by (cases fwd; cases "randomValue < goalBias P"; cases "connect P")
     (auto simp: planBidirectionalRrt_body_def Let_def)

lemma planBidirectionalRrt_body_hangs_second:
  assumes "mDistribution G g = (randomValue, g1)"
    and "\<not> (randomValue < goalBias P \<and> goal = [])"
    and "(if randomValue < goalBias P then (goal ! 0, if fwd then tg else ts)
          else R_getRandomConfig R (if fwd then tg else ts)) = (target, rrt1a)"
    and "(if connect P then map_option snd (R_connect R target rrt1a)
          else Some (snd (R_tryStep R target rrt1a))) = Some rrt1b"
    and "R_mActiveNode R rrt1b < length (R_mConfigs R rrt1b)"
    and "(if connect P
          then R_connect R (R_mConfigs R rrt1b ! R_mActiveNode R rrt1b) (if fwd then ts else tg)
          else (case R_tryStep R (R_mConfigs R rrt1b ! R_mActiveNode R rrt1b)
                       (if fwd then ts else tg) of
                  (r, rrt2b) \<Rightarrow> Some (r = STEP_REACHED, rrt2b))) = None"
  shows "planBidirectionalRrt_body R G P goal path (fwd, ts, tg, g, numNodes) = NoReturn"
  using assms
  by (cases fwd; cases "randomValue < goalBias P"; cases "connect P")
     (auto simp: planBidirectionalRrt_body_def Let_def)

lemma planPath_sifted:
  assumes "sift E dofs start w = (fs, w1)" and "sift E dofs goal w1 = (fg, w2)"
  shows "planPath E R G P w dofs start goal path =
     (if fs = []
      then Some (Inr \<lparr>result = False, path_out = path, planner_out = P, world_out = w1,
              warnings = [''WARNING: PathPlanner: Feasible start points are empty!'']\<rparr>)
      else if fg = []
      then Some (Inr \<lparr>result = False, path_out = path, planner_out = P, world_out = w2,
              warnings = [''WARNING: PathPlanner: Feasible goal points are empty!'']\<rparr>)
      else if bidirectional P
      then (case planBidirectionalRrt R G P w2 dofs fs fg path of
              None \<Rightarrow> None
            | Some (Inl e) \<Rightarrow> Some (Inl e)
            | Some (Inr (res, path', P')) \<Rightarrow>
                Some (Inr \<lparr>result = res, path_out = path', planner_out = P',
                        world_out = setPositions E dofs (getPositions E dofs w) w2,
                        warnings = []\<rparr>))
      else (case planSingleTreeRrt R G P w2 dofs fs (hd fg) path of
              None \<Rightarrow> None
            | Some (res, path', P') \<Rightarrow>
                Some (Inr \<lparr>result = res, path_out = path', planner_out = P',
                        world_out = setPositions E dofs (getPositions E dofs w) w2,
                        warnings = (if length fg > 1
                          then [''WARNING: planPath is using ONLY the first goal!'']
                          else [])\<rparr>)))"
  using assms by (simp add: planPath_def Let_def)

subsection \<open>Failure leaves the path list alone\<close>

lemma single_body_keeps_path:
  "planSingleTreeRrt_body R G P goal path s = Return r \<Longrightarrow> fst r"
  by (auto simp: planSingleTreeRrt_body_def split: prod.splits option.splits if_splits)

lemma single_failure_path:
  assumes "planSingleTreeRrt R G P w dofs start goal path = Some (res, path', P')" and "\<not> res"
  shows "path' = path"
proof -
  from assms(1) obtain t' g' where run:
    "while_loop (\<lambda>(t, g, numNodes). numNodes \<le> maxNodes P) (planSingleTreeRrt_body R G P goal path)
       (\<lambda>(t, g, numNodes). (False, path, t, g))
       (case start_rrt P of None \<Rightarrow> R_new R w dofs start (stepSize P)
          | Some t \<Rightarrow> R_reset R t w dofs start (stepSize P), mMT P,
        R_getSize R (case start_rrt P of None \<Rightarrow> R_new R w dofs start (stepSize P)
          | Some t \<Rightarrow> R_reset R t w dofs start (stepSize P))) = Some (res, path', t', g')"
    by (auto simp: planSingleTreeRrt_def Let_def split: option.splits)
  have "\<not> fst (res, path', t', g') \<longrightarrow> fst (snd (res, path', t', g')) = path"
    by (rule while_loop_rule[OF run, where I = "\<lambda>_. True"
          and Q = "\<lambda>r. \<not> fst r \<longrightarrow> fst (snd r) = path"])
       (auto dest: single_body_keeps_path)
  with assms(2) show ?thesis by simp
qed

lemma bidirectional_body_keeps_path:
  "planBidirectionalRrt_body R G P goal path s = Return (Inr r) \<Longrightarrow> fst r"
  by (auto simp: planBidirectionalRrt_body_def Let_def split: prod.splits option.splits if_splits)

lemma bidirectional_failure_path:
  assumes "planBidirectionalRrt R G P w dofs start goal path = Some (Inr (res, path', P'))" and "\<not> res"
  shows "path' = path"
proof -
  from assms(1) obtain s0 ts' tg' g' where run:
    "while_loop (\<lambda>(fwd, ts, tg, g, numNodes). numNodes < maxNodes P)
       (planBidirectionalRrt_body R G P goal path)
       (\<lambda>(fwd, ts, tg, g, numNodes). Inr (False, path, ts, tg, g)) s0
     = Some (Inr (res, path', ts', tg', g'))"
    by (auto simp: planBidirectionalRrt_def Let_def split: option.splits sum.splits)
  have "\<forall>y. (Inr (res, path', ts', tg', g') :: fault + _) = Inr y \<longrightarrow> \<not> fst y \<longrightarrow> fst (snd y) = path"
    by (rule while_loop_rule[OF run, where I = "\<lambda>_. True"
          and Q = "\<lambda>r::fault + _. \<forall>y. r = Inr y \<longrightarrow> \<not> fst y \<longrightarrow> fst (snd y) = path"])
       (auto dest: bidirectional_body_keeps_path)
  with assms(2) show ?thesis by simp
qed

text \<open>
  C10. On every failure return of \<open>planPath\<close> (no feasible start, no feasible goal, or
  the node budget used up in either planner) the path list of the caller is exactly what
  was passed in.
\<close>

theorem planPath_failure_keeps_path:
  assumes "planPath E R G P w dofs start goal path = Some (Inr out)" and "\<not> result out"
  shows "path_out out = path"
  using assms
  by (auto simp: planPath_def Let_def split: prod.splits if_splits option.splits sum.splits
           dest: single_failure_path bidirectional_failure_path)

text \<open>
  A run that fails: free space, one tree, steps of 1 from 0 toward 5 and a budget of one
  node. The list holds \<open>[9]\<close> before and after.
\<close>

theorem planPath_failure_keeps_path_witness:
  "\<exists>out. planPath (lineWorld (\<lambda>q. False)) (RRT (lineWorld (\<lambda>q. False)) lineSampler 0) counterEngine
           (PathPlanner_new counterEngine 0 False False 1 1 1) [7] [0] [[0]] [[5]] [[9]]
         = Some (Inr out) \<and> \<not> result out \<and> path_out out = [[9]]"
proof -
  obtain out where run:
    "planPath (lineWorld (\<lambda>q. False)) (RRT (lineWorld (\<lambda>q. False)) lineSampler 0) counterEngine
       (PathPlanner_new counterEngine 0 False False 1 1 1) [7] [0] [[0]] [[5]] [[9]]
     = Some (Inr out)" and fail: "\<not> result out"
    by (simp add: run_defs)
  from planPath_failure_keeps_path[OF run fail] run fail show ?thesis by blast
qed

subsection \<open>No feasible start, no feasible goal\<close>




text \<open>
  Once both sifting loops have found a feasible configuration, the call comes back
  through line 169, and the robot stands where it stood before the call (for a robot
  that reads back what was written to it).
\<close>

lemma planPath_restores_after_planning:
  assumes law: "\<And>q w'. getPositions E dofs (setPositions E dofs q w') = q"
    and run: "planPath E R G P w dofs start goal path = Some (Inr out)"
    and s: "sift E dofs start w = (fs, w1)" "fs \<noteq> []"
    and g: "sift E dofs goal w1 = (fg, w2)" "fg \<noteq> []"
  shows "getPositions E dofs (world_out out) = getPositions E dofs w"
  using run s(2) g(2) law
  by (auto simp: planPath_sifted[OF s(1) g(1)] split: if_splits option.splits sum.splits)

text \<open>
  C1. The claim is that the robot's positions after every \<open>planPath\<close> call are those
  before it, also on the returns for no feasible start and no feasible goal. The two
  early returns (lines 135 and 150) leave before line 169 restores the positions: with
  the robot at 7 and the only start (or the only goal) 1 in collision, the call returns
  \<open>False\<close> and the robot stands at 1.
\<close>

theorem planPath_infeasible_robot_moved:
  "(\<exists>out. planPath (lineWorld (\<lambda>q. q = [1])) R G P [7] [0] [[1]] [[5]] path = Some (Inr out) \<and>
         \<not> result out \<and>
         getPositions (lineWorld (\<lambda>q. q = [1])) [0] [7] = [7] \<and>
         getPositions (lineWorld (\<lambda>q. q = [1])) [0] (world_out out) = [1]) \<and>
   (\<exists>out. planPath (lineWorld (\<lambda>q. q = [1])) R G P [7] [0] [[5]] [[1]] path = Some (Inr out) \<and>
         \<not> result out \<and>
         getPositions (lineWorld (\<lambda>q. q = [1])) [0] [7] = [7] \<and>
         getPositions (lineWorld (\<lambda>q. q = [1])) [0] (world_out out) = [1])"
  by (simp add: planPath_def sift_def lineWorld_def)

subsection \<open>A planner that is trapped for ever\<close>

lemma lineSampler_range: "\<exists>x. lineSampler n = ([x], Suc n) \<and> 0 < x \<and> x < 5"
proof -
  have "5 / real (n + 2) < 5 / 1"
    by (rule divide_strict_left_mono) simp_all
  then show ?thesis
    by (simp add: lineSampler_def)
qed

lemma boxedStart_tryStep:
  assumes "boxedStart t" "0 < x"
  shows "RRT_tryStep [x] t = (STEP_TRAPPED, t)"
proof -
  from assms(2) have "min 1 x / x * x = min 1 x" by simp
  moreover from assms(2) have "min 1 x \<noteq> 0" "min 1 x \<noteq> 5" by (simp_all add: min_def)
  ultimately show ?thesis
    using assms by (simp add: boxedStart_def RRT_tryStep_def gap_line Let_def)
qed

lemma boxedGoal_tryStep:
  assumes "boxedGoal t" "x < 5"
  shows "RRT_tryStep [x] t = (STEP_TRAPPED, t)"
proof -
  from assms(2) have "5 + min 1 (5 - x) / (5 - x) * (x - 5) = 5 - min 1 (5 - x)"
    by (simp add: field_simps)
  moreover from assms(2) have "5 - min 1 (5 - x) \<noteq> 0" "5 - min 1 (5 - x) \<noteq> 5"
    by (simp_all add: min_def)
  ultimately show ?thesis
    using assms by (simp add: boxedGoal_def RRT_tryStep_def gap_line Let_def)
qed

lemma boxedStart_connect:
  assumes "boxedStart t" "0 < x"
  shows "RRT_connect [x] t = Some (False, t)"
  by (subst RRT_connect.simps) (simp add: boxedStart_tryStep[OF assms])

lemma boxedGoal_connect:
  assumes "boxedGoal t" "x < 5"
  shows "RRT_connect [x] t = Some (False, t)"
  by (subst RRT_connect.simps) (simp add: boxedGoal_tryStep[OF assms])

lemma boxedStart_sample:
  assumes "boxedStart t"
  shows "\<exists>x t'. RRT_getRandomConfig lineSampler t = ([x], t') \<and> 0 < x \<and> x < 5 \<and> boxedStart t'"
proof -
  from lineSampler_range[of "mSampler t"] obtain x
    where "lineSampler (mSampler t) = ([x], Suc (mSampler t))" "0 < x" "x < 5" by blast
  with assms show ?thesis
    by (simp add: RRT_getRandomConfig_def boxedStart_def)
qed

lemma boxedGoal_sample:
  assumes "boxedGoal t"
  shows "\<exists>x t'. RRT_getRandomConfig lineSampler t = ([x], t') \<and> 0 < x \<and> x < 5 \<and> boxedGoal t'"
proof -
  from lineSampler_range[of "mSampler t"] obtain x
    where "lineSampler (mSampler t) = ([x], Suc (mSampler t))" "0 < x" "x < 5" by blast
  with assms show ?thesis
    by (simp add: RRT_getRandomConfig_def boxedGoal_def)
qed

lemma boxed_single_body:
  assumes t: "boxedStart t" and P: "stepSize P = 1"
  shows "\<exists>t' g'. planSingleTreeRrt_body (RRT E lineSampler s0) G P [5] path (t, g, n)
           = Continue (t', g', 1) \<and> boxedStart t'"
proof -
  let ?R = "RRT E lineSampler s0"
  obtain r g1 where d: "mDistribution G g = (r, g1)" by (cases "mDistribution G g")
  obtain x t1 where tgt: "(if r < goalBias P then ([5], t) else R_getRandomConfig ?R t) = ([x], t1)"
    and x: "0 < x" and t1: "boxedStart t1"
    using boxedStart_sample[OF t] t by (cases "r < goalBias P") (auto simp: RRT_members)
  have ext: "(if connect P then map_option snd (R_connect ?R [x] t1)
          else Some (snd (R_tryStep ?R [x] t1))) = Some t1"
    using boxedStart_tryStep[OF t1 x] boxedStart_connect[OF t1 x] by (simp add: RRT_members)
  from t1 have gap: "R_getGap ?R [5] t1 = 5" and size: "R_getSize ?R t1 = 1"
    by (simp_all add: RRT_members boxedStart_def RRT_getGap_def RRT_getSize_def gap_line)
  show ?thesis
    unfolding planSingleTreeRrt_body_pass[OF d tgt ext] using gap size P t1 by simp
qed

lemma boxed_single_diverges:
  assumes t: "boxedStart t" and P: "stepSize P = 1" "1 \<le> maxNodes P"
  shows "while_loop (\<lambda>(t, g, numNodes). numNodes \<le> maxNodes P)
           (planSingleTreeRrt_body (RRT E lineSampler s0) G P [5] path) after (t, g, 1) = None"
proof (rule while_loop_diverges[where I = "\<lambda>(t, g, n). boxedStart t \<and> n = 1"])
  show "case (t, g, 1) of (t, g, n) \<Rightarrow> boxedStart t \<and> n = 1" using t by simp
next
  fix s :: "nat tree \<times> 'a \<times> nat"
  assume "case s of (t, g, n) \<Rightarrow> boxedStart t \<and> n = 1"
  then obtain t g where s: "s = (t, g, 1)" and bt: "boxedStart t" by (cases s) auto
  from boxed_single_body[OF bt P(1), of E s0 G path g 1] P(2) s
  show "(case s of (t, g, numNodes) \<Rightarrow> numNodes \<le> maxNodes P) \<and>
        (planSingleTreeRrt_body (RRT E lineSampler s0) G P [5] path s = NoReturn \<or>
         (\<exists>s'. planSingleTreeRrt_body (RRT E lineSampler s0) G P [5] path s = Continue s' \<and>
               (case s' of (t, g, n) \<Rightarrow> boxedStart t \<and> n = 1)))"
    by auto
qed

lemma boxed_planPath_single:
  "planPath boxedWorld (RRT boxedWorld lineSampler s0) G
     (PathPlanner_new G rd False cn 1 10 gb) w dofs [[0]] [[5]] path = None"
proof -
  have t0: "boxedStart (RRT_new boxedWorld s0 [5] dofs [[0]] 1)"
    by (simp add: boxedStart_def RRT_new_def boxedWorld_def lineWorld_def)
  have "planSingleTreeRrt (RRT boxedWorld lineSampler s0) G (PathPlanner_new G rd False cn 1 10 gb)
          [5] dofs [[0]] [5] path = None"
    using boxed_single_diverges[OF t0, of "PathPlanner_new G rd False cn 1 10 gb" boxedWorld s0 G path]
    by (simp add: planSingleTreeRrt_def PathPlanner_new_def RRT_def RRT_getSize_def RRT_new_def)
  then show ?thesis
    by (simp add: planPath_def sift_def boxedWorld_def lineWorld_def PathPlanner_new_def)
qed

lemma boxed_bidirectional_body:
  assumes ts: "boxedStart ts" and tg: "boxedGoal tg" and P: "goalBias P = 0"
  shows "\<exists>ts' tg' g'. planBidirectionalRrt_body (RRT E lineSampler s0) counterEngine P [[5]] path
             (fwd, ts, tg, g, n) = Continue (\<not> fwd, ts', tg', g', 2) \<and> boxedStart ts' \<and> boxedGoal tg'"
proof -
  let ?R = "RRT E lineSampler s0"
  have d: "mDistribution counterEngine g = (real (g mod 10) / 10, Suc g)"
    by (simp add: counterEngine_def)
  have nb: "\<not> (real (g mod 10) / 10 < goalBias P \<and> [[5::real]] = [])" by simp
  have nlt: "\<not> real (g mod 10) / 10 < goalBias P" using P by simp
  show ?thesis
  proof (cases fwd)
    case True
    from boxedGoal_sample[OF tg] obtain x t1
      where smp: "RRT_getRandomConfig lineSampler tg = ([x], t1)" and x: "0 < x" "x < 5"
        and t1: "boxedGoal t1" by blast
    have tgt: "(if real (g mod 10) / 10 < goalBias P then ([[5]] ! 0, if fwd then tg else ts)
          else R_getRandomConfig ?R (if fwd then tg else ts)) = ([x], t1)"
      using nlt smp True by (simp add: RRT_members)
    have ext: "(if connect P then map_option snd (R_connect ?R [x] t1)
          else Some (snd (R_tryStep ?R [x] t1))) = Some t1"
      using boxedGoal_tryStep[OF t1 x(2)] boxedGoal_connect[OF t1 x(2)] by (simp add: RRT_members)
    have act: "R_mActiveNode ?R t1 < length (R_mConfigs ?R t1)"
      and cfg: "mConfigs t1 ! mActiveNode t1 = [5]"
      using t1 by (simp_all add: RRT_members boxedGoal_def)
    have other: "(if connect P
          then R_connect ?R (R_mConfigs ?R t1 ! R_mActiveNode ?R t1) (if fwd then ts else tg)
          else (case R_tryStep ?R (R_mConfigs ?R t1 ! R_mActiveNode ?R t1)
                       (if fwd then ts else tg) of
                  (r, rrt2b) \<Rightarrow> Some (r = STEP_REACHED, rrt2b))) = Some (False, ts)"
      using boxedStart_tryStep[OF ts, of 5] boxedStart_connect[OF ts, of 5] True
      by (simp add: RRT_members cfg)
    have size: "R_getSize ?R t1 + R_getSize ?R ts = 2"
      using t1 ts by (simp add: RRT_members RRT_getSize_def boxedGoal_def boxedStart_def)
    show ?thesis
      unfolding planBidirectionalRrt_body_pass[OF d nb tgt ext act other]
      using True ts t1 size by simp
  next
    case False
    from boxedStart_sample[OF ts] obtain x t1
      where smp: "RRT_getRandomConfig lineSampler ts = ([x], t1)" and x: "0 < x" "x < 5"
        and t1: "boxedStart t1" by blast
    have tgt: "(if real (g mod 10) / 10 < goalBias P then ([[5]] ! 0, if fwd then tg else ts)
          else R_getRandomConfig ?R (if fwd then tg else ts)) = ([x], t1)"
      using nlt smp False by (simp add: RRT_members)
    have ext: "(if connect P then map_option snd (R_connect ?R [x] t1)
          else Some (snd (R_tryStep ?R [x] t1))) = Some t1"
      using boxedStart_tryStep[OF t1 x(1)] boxedStart_connect[OF t1 x(1)] by (simp add: RRT_members)
    have act: "R_mActiveNode ?R t1 < length (R_mConfigs ?R t1)"
      and cfg: "mConfigs t1 ! mActiveNode t1 = [0]"
      using t1 by (simp_all add: RRT_members boxedStart_def)
    have other: "(if connect P
          then R_connect ?R (R_mConfigs ?R t1 ! R_mActiveNode ?R t1) (if fwd then ts else tg)
          else (case R_tryStep ?R (R_mConfigs ?R t1 ! R_mActiveNode ?R t1)
                       (if fwd then ts else tg) of
                  (r, rrt2b) \<Rightarrow> Some (r = STEP_REACHED, rrt2b))) = Some (False, tg)"
      using boxedGoal_tryStep[OF tg, of 0] boxedGoal_connect[OF tg, of 0] False
      by (simp add: RRT_members cfg)
    have size: "R_getSize ?R t1 + R_getSize ?R tg = 2"
      using t1 tg by (simp add: RRT_members RRT_getSize_def boxedGoal_def boxedStart_def)
    show ?thesis
      unfolding planBidirectionalRrt_body_pass[OF d nb tgt ext act other]
      using False tg t1 size by simp
  qed
qed

lemma boxed_bidirectional_diverges:
  assumes t: "boxedStart ts" "boxedGoal tg" and P: "goalBias P = 0" "2 < maxNodes P"
  shows "while_loop (\<lambda>(fwd, ts, tg, g, numNodes). numNodes < maxNodes P)
           (planBidirectionalRrt_body (RRT E lineSampler s0) counterEngine P [[5]] path) after
           (fwd, ts, tg, g, 2) = None"
proof (rule while_loop_diverges[where I = "\<lambda>(fwd, ts, tg, g, n). boxedStart ts \<and> boxedGoal tg \<and> n = 2"])
  show "case (fwd, ts, tg, g, 2) of (fwd, ts, tg, g, n) \<Rightarrow> boxedStart ts \<and> boxedGoal tg \<and> n = 2"
    using t by simp
next
  fix s :: "bool \<times> nat tree \<times> nat tree \<times> nat \<times> nat"
  assume "case s of (fwd, ts, tg, g, n) \<Rightarrow> boxedStart ts \<and> boxedGoal tg \<and> n = 2"
  then obtain fwd ts tg g where s: "s = (fwd, ts, tg, g, 2)" and b: "boxedStart ts" "boxedGoal tg"
    by (cases s) auto
  from boxed_bidirectional_body[OF b P(1), of E s0 path fwd g 2] P(2) s
  show "(case s of (fwd, ts, tg, g, numNodes) \<Rightarrow> numNodes < maxNodes P) \<and>
        (planBidirectionalRrt_body (RRT E lineSampler s0) counterEngine P [[5]] path s = NoReturn \<or>
         (\<exists>s'. planBidirectionalRrt_body (RRT E lineSampler s0) counterEngine P [[5]] path s = Continue s' \<and>
               (case s' of (fwd, ts, tg, g, n) \<Rightarrow> boxedStart ts \<and> boxedGoal tg \<and> n = 2)))"
    by auto
qed

lemma boxed_planPath_bidirectional:
  "planPath boxedWorld (RRT boxedWorld lineSampler s0) counterEngine
     (PathPlanner_new counterEngine rd True cn 1 10 0) w dofs [[0]] [[5]] path = None"
proof -
  have t0: "boxedStart (RRT_new boxedWorld s0 [5] dofs [[0]] 1)"
    and t1: "boxedGoal (RRT_new boxedWorld s0 [5] dofs [[5]] 1)"
    by (simp_all add: boxedStart_def boxedGoal_def RRT_new_def boxedWorld_def lineWorld_def)
  have "planBidirectionalRrt (RRT boxedWorld lineSampler s0) counterEngine
          (PathPlanner_new counterEngine rd True cn 1 10 0) [5] dofs [[0]] [[5]] path = None"
    using boxed_bidirectional_diverges[OF t0 t1, where P = "PathPlanner_new counterEngine rd True cn 1 10 0"
        and E = boxedWorld and ?s0.0 = s0 and path = path and fwd = True]
    by (simp add: planBidirectionalRrt_def PathPlanner_new_def RRT_members RRT_getSize_def RRT_new_def
          numeral_2_eq_2)
  then show ?thesis
    by (simp add: planPath_def sift_def boxedWorld_def lineWorld_def PathPlanner_new_def)
qed

text \<open>
  C2. The claim is that both planning loops end for every input, also when every
  extension is trapped and inserts no node. \<open>maxNodes\<close> is documented as the greatest
  number of iterations, but both loops compare it with the number of nodes, which a
  trapped extension leaves as it is. On the line where only 0 and 5 are free, from 0 to
  5 with steps of 1, random targets strictly between 0 and 5 and a budget of 10 nodes,
  every extension of either tree is trapped:
  the single-tree planner never returns, whatever the engine, the bias and the extension
  mode; nor does the bidirectional planner, with bias 0.
\<close>

theorem planPath_trapped_never_returns:
  "planPath boxedWorld (RRT boxedWorld lineSampler s0) G
     (PathPlanner_new G rd False cn 1 10 gb) w dofs [[0]] [[5]] path = None \<and>
   planPath boxedWorld (RRT boxedWorld lineSampler s0) counterEngine
     (PathPlanner_new counterEngine rd True cn 1 10 0) w dofs [[0]] [[5]] path = None"
  using boxed_planPath_single boxed_planPath_bidirectional by blast

subsection \<open>The node budget of the bidirectional planner\<close>

text \<open>
  C5. The claim is that the bidirectional planner fails exactly when the combined node
  count exceeds \<open>maxNodes\<close>, that is, that its loop keeps going while the count is at most
  \<open>maxNodes\<close>. The guard of line 257 is \<open>numNodes < maxNodes\<close>, where the single-tree
  planner has \<open>numNodes \<le> maxNodes\<close> (line 191) under the same comment. In free space,
  from 0 to 1 with steps of 2: with \<open>maxNodes = 2\<close> the two roots already use the budget
  up and the planner fails without a single pass, although the count does not exceed 2;
  with \<open>maxNodes = 3\<close> the trees meet in the first pass; and the single-tree planner,
  with its one root and \<open>maxNodes = 1\<close>, does make its pass and succeeds.
\<close>

theorem bidirectional_budget_reached:
  "returned (planPath freeWorld (RRT freeWorld lineSampler 0) counterEngine
      (PathPlanner_new counterEngine 0 True False 2 2 (3 / 10)) [7] [0] [[0]] [[1]] []) = Some (False, []) \<and>
   returned (planPath freeWorld (RRT freeWorld lineSampler 0) counterEngine
      (PathPlanner_new counterEngine 0 True False 2 3 (3 / 10)) [7] [0] [[0]] [[1]] []) = Some (True, [[0], [1], [1], [1]]) \<and>
   returned (planPath freeWorld (RRT freeWorld lineSampler 0) counterEngine
      (PathPlanner_new counterEngine 0 False False 2 1 (3 / 10)) [7] [0] [[0]] [[1]] []) = Some (True, [[0], [1]])"
  by (simp add: run_defs ex_defs)

subsection \<open>A pass in which the growing tree is trapped\<close>

text \<open>
  C6, as stated, fails. On \<open>walledWorld\<close> the first pass of \<open>walledPlanner\<close> grows the
  goal tree toward the random target 5/2: the step from 1 would land on 2, which collides,
  so the step is trapped and no node is made. The start tree still steps toward the
  configuration of the goal tree's active node, 1, and reaches it: the pass returns
  success, with the path 0, 1, 1, instead of looping to the next pass.
\<close>

theorem trapped_pass_meets_counterexample:
  "RRT_getRandomConfig lineSampler walledGoal = ([5 / 2], walledGoal\<lparr>mSampler := 1\<rparr>) \<and>
   RRT_tryStep [5 / 2] (walledGoal\<lparr>mSampler := 1\<rparr>) = (STEP_TRAPPED, walledGoal\<lparr>mSampler := 1\<rparr>) \<and>
   planBidirectionalRrt_body (RRT walledWorld lineSampler 0) counterEngine walledPlanner [[1]] []
     (True, walledStart, walledGoal, 5, 2) =
     Return (Inr (True, [[0], [1], [1]], snd (RRT_tryStep [1] walledStart), walledGoal\<lparr>mSampler := 1\<rparr>, 6)) \<and>
   RRT_getSize (snd (RRT_tryStep [1] walledStart)) = 2 \<and>
   returned (planPath walledWorld (RRT walledWorld lineSampler 0) counterEngine walledPlanner
      [7] [0] [[0]] [[1]] []) = Some (True, [[0], [1], [1]])"
  by (simp add: run_defs ex_defs)

text \<open>
  C6, amended. When the extension of the growing tree is trapped at its first step (a
  step that returns \<open>STEP_TRAPPED\<close>, a \<open>connect\<close> that returns \<open>false\<close>), the other tree
  still makes its extension, toward the configuration of the growing tree's active node.
  If that extension reaches it, the pass returns success with the two traces; otherwise
  control goes to the next pass, with the roles swapped and the engine advanced by one
  draw.
\<close>

theorem bidirectional_trapped_pass:
  assumes draw: "mDistribution G g = (randomValue, g1)"
    and goal: "\<not> (randomValue < goalBias P \<and> goal = [])"
    and target: "(if randomValue < goalBias P then (goal ! 0, if fwd then tg else ts)
          else R_getRandomConfig R (if fwd then tg else ts)) = (target, rrt1a)"
    and trapped: "if connect P then R_connect R target rrt1a = Some (False, rrt1b)
          else R_tryStep R target rrt1a = (STEP_TRAPPED, rrt1b)"
    and active: "R_mActiveNode R rrt1b < length (R_mConfigs R rrt1b)"
    and other: "if connect P
          then R_connect R (R_mConfigs R rrt1b ! R_mActiveNode R rrt1b) (if fwd then ts else tg)
                 = Some (treesMet, rrt2b)
          else \<exists>r. R_tryStep R (R_mConfigs R rrt1b ! R_mActiveNode R rrt1b) (if fwd then ts else tg)
                 = (r, rrt2b) \<and> treesMet = (r = STEP_REACHED)"
  shows "planBidirectionalRrt_body R G P goal path (fwd, ts, tg, g, numNodes) =
           (if treesMet
            then Return (Inr (True,
                   R_tracePath R (R_mActiveNode R (if fwd then rrt1b else rrt2b))
                     (R_tracePath R (R_mActiveNode R (if fwd then rrt2b else rrt1b)) path False
                        (if fwd then rrt2b else rrt1b))
                     True (if fwd then rrt1b else rrt2b),
                   if fwd then rrt2b else rrt1b, if fwd then rrt1b else rrt2b, g1))
            else Continue (\<not> fwd, if fwd then rrt2b else rrt1b, if fwd then rrt1b else rrt2b, g1,
                   R_getSize R rrt1b + R_getSize R rrt2b))"
proof -
  have ext: "(if connect P then map_option snd (R_connect R target rrt1a)
          else Some (snd (R_tryStep R target rrt1a))) = Some rrt1b"
    using trapped by (cases "connect P") simp_all
  have oth: "(if connect P
          then R_connect R (R_mConfigs R rrt1b ! R_mActiveNode R rrt1b) (if fwd then ts else tg)
          else (case R_tryStep R (R_mConfigs R rrt1b ! R_mActiveNode R rrt1b)
                       (if fwd then ts else tg) of
                  (r, rrt2b) \<Rightarrow> Some (r = STEP_REACHED, rrt2b))) = Some (treesMet, rrt2b)"
    using other by (cases "connect P") auto
  show ?thesis
    by (rule planBidirectionalRrt_body_pass[OF draw goal target ext active oth])
qed

text \<open>
  The pass of the counterexample with the start at -3: the goal tree is trapped, the
  start tree advances to -2 without reaching 1, and the loop goes on.
\<close>

theorem bidirectional_trapped_pass_witness:
  "planBidirectionalRrt_body (RRT walledWorld lineSampler 0) counterEngine walledPlanner [[1]] []
     (True, RRT_new walledWorld 0 [1] [0] [[- 3]] 1, walledGoal, 5, 2) =
   Continue (False, snd (RRT_tryStep [1] (RRT_new walledWorld 0 [1] [0] [[- 3]] 1)),
     walledGoal\<lparr>mSampler := 1\<rparr>, 6, 3) \<and>
   mConfigs (snd (RRT_tryStep [1] (RRT_new walledWorld 0 [1] [0] [[- 3]] 1))) = [[- 3], [- 2]]"
proof -
  let ?R = "RRT walledWorld lineSampler 0"
  let ?ts = "RRT_new walledWorld 0 [1] [0] [[- 3]] 1 :: nat tree"
  let ?tg = "walledGoal\<lparr>mSampler := 1\<rparr>"
  have draw: "mDistribution counterEngine 5 = (1 / 2, 6)"
    by (simp add: counterEngine_def)
  have goal: "\<not> (1 / 2 < goalBias walledPlanner \<and> [[1::real]] = [])" by simp
  have target: "(if 1 / 2 < goalBias walledPlanner then ([[1]] ! 0, if True then walledGoal else ?ts)
          else R_getRandomConfig ?R (if True then walledGoal else ?ts)) = ([5 / 2], ?tg)"
    by (simp add: run_defs ex_defs)
  have trapped: "if connect walledPlanner then R_connect ?R [5 / 2] ?tg = Some (False, ?tg)
          else R_tryStep ?R [5 / 2] ?tg = (STEP_TRAPPED, ?tg)"
    by (simp add: run_defs ex_defs)
  have active: "R_mActiveNode ?R ?tg < length (R_mConfigs ?R ?tg)"
    by (simp add: run_defs ex_defs)
  have other: "if connect walledPlanner
          then R_connect ?R (R_mConfigs ?R ?tg ! R_mActiveNode ?R ?tg) (if True then ?ts else walledGoal)
                 = Some (False, snd (RRT_tryStep [1] ?ts))
          else \<exists>r. R_tryStep ?R (R_mConfigs ?R ?tg ! R_mActiveNode ?R ?tg) (if True then ?ts else walledGoal)
                 = (r, snd (RRT_tryStep [1] ?ts)) \<and> False = (r = STEP_REACHED)"
    by (simp add: run_defs ex_defs)
  from bidirectional_trapped_pass[OF draw goal target trapped active other, of "[]" 2]
  show ?thesis
    by (simp add: run_defs ex_defs)
qed

subsection \<open>Success of the single-tree planner\<close>

lemma parentChain_starts:
  assumes "n < length ps"
  shows "\<exists>rest. parentChain ps n = n # rest"
  using assms by (subst parentChain.simps) (simp split: option.split)

lemma treeOk_new:
  "roots \<noteq> [] \<Longrightarrow> treeOk (RRT_new E s0 w dofs roots step)"
  by (cases roots) (simp_all add: treeOk_def RRT_new_def)

lemma treeOk_tryStep:
  "treeOk t \<Longrightarrow> treeOk (snd (RRT_tryStep target t))"
  by (auto simp: treeOk_def RRT_tryStep_def Let_def)

lemma treeOk_connect:
  assumes "RRT_connect target t = Some (b, t')" and "treeOk t"
  shows "treeOk t'"
proof -
  have "treeOk t \<longrightarrow> treeOk (snd (b, t'))"
  proof (rule RRT_connect.raw_induct[where P = "\<lambda>target t r. treeOk t \<longrightarrow> treeOk (snd r)", OF _ assms(1)])
    fix c target and t :: "'a tree" and r
    assume IH: "\<And>target t r. c target t = Some r \<Longrightarrow> treeOk t \<longrightarrow> treeOk (snd r)"
      and body: "(case RRT_tryStep target t of
                    (STEP_TRAPPED, t') \<Rightarrow> Some (False, t')
                  | (STEP_REACHED, t') \<Rightarrow> Some (True, t')
                  | (STEP_ADVANCED, t') \<Rightarrow> c target t') = Some r"
    show "treeOk t \<longrightarrow> treeOk (snd r)"
    proof
      assume ok: "treeOk t"
      obtain res t1 where st: "RRT_tryStep target t = (res, t1)" by (cases "RRT_tryStep target t")
      with treeOk_tryStep[OF ok, of target] have ok1: "treeOk t1" by simp
      show "treeOk (snd r)"
      proof (cases res)
        case STEP_ADVANCED
        with body st have "c target t1 = Some r" by simp
        from IH[OF this] ok1 show ?thesis by simp
      qed (use body st ok1 in auto)
    qed
  qed
  with assms(2) show ?thesis by simp
qed

lemma treeOk_sample:
  "treeOk t \<Longrightarrow> treeOk (snd (RRT_getRandomConfig sampler t))"
  by (simp add: treeOk_def RRT_getRandomConfig_def split: prod.split)

lemma treeOk_trace:
  assumes "treeOk t"
  shows "\<exists>tr. RRT_tracePath (mActiveNode t) path False t = tr @ path \<and> tr \<noteq> [] \<and>
              last tr = mConfigs t ! mActiveNode t"
proof -
  from assms have "mActiveNode t < length (mParentVector t)" by (simp add: treeOk_def)
  from parentChain_starts[OF this] obtain rest
    where "parentChain (mParentVector t) (mActiveNode t) = mActiveNode t # rest" by blast
  then show ?thesis
    by (simp add: RRT_tracePath_def nodeToRoot_def)
qed

lemma single_body_RRT_ok:
  assumes "planSingleTreeRrt_body (RRT E sampler s0) G P goal path (t, g, n) = Continue (t', g', n')"
    and "treeOk t"
  shows "treeOk t'"
proof -
  obtain r g1 where d: "mDistribution G g = (r, g1)" by (cases "mDistribution G g")
  obtain target t1 where tgt:
    "(if r < goalBias P then (goal, t) else R_getRandomConfig (RRT E sampler s0) t) = (target, t1)"
    by (cases "if r < goalBias P then (goal, t) else R_getRandomConfig (RRT E sampler s0) t")
  with assms(2) treeOk_sample[of t sampler] have ok1: "treeOk t1"
    by (auto simp: RRT_members split: if_splits)
  from assms(1) d tgt obtain t2 where ext:
    "(if connect P then map_option snd (R_connect (RRT E sampler s0) target t1)
      else Some (snd (R_tryStep (RRT E sampler s0) target t1))) = Some t2"
    by (auto simp: planSingleTreeRrt_body_def split: option.splits if_splits)
  then have ok2: "treeOk t2"
    using ok1 treeOk_tryStep[OF ok1, of target] treeOk_connect[of target t1 _ t2]
    by (auto simp: RRT_members split: if_splits)
  from assms(1) show ?thesis
    unfolding planSingleTreeRrt_body_pass[OF d tgt ext] using ok2 by (simp split: if_splits)
qed

lemma single_body_RRT_return:
  assumes "planSingleTreeRrt_body (RRT E sampler s0) G P goal path (t, g, n) = Return (res, path', t', g')"
    and "treeOk t"
  shows "treeOk t' \<and> RRT_getGap goal t' < stepSize P \<and>
         path' = RRT_tracePath (mActiveNode t') path False t'"
proof -
  obtain r g1 where d: "mDistribution G g = (r, g1)" by (cases "mDistribution G g")
  obtain target t1 where tgt:
    "(if r < goalBias P then (goal, t) else R_getRandomConfig (RRT E sampler s0) t) = (target, t1)"
    by (cases "if r < goalBias P then (goal, t) else R_getRandomConfig (RRT E sampler s0) t")
  with assms(2) treeOk_sample[of t sampler] have ok1: "treeOk t1"
    by (auto simp: RRT_members split: if_splits)
  from assms(1) d tgt obtain t2 where ext:
    "(if connect P then map_option snd (R_connect (RRT E sampler s0) target t1)
      else Some (snd (R_tryStep (RRT E sampler s0) target t1))) = Some t2"
    by (auto simp: planSingleTreeRrt_body_def split: option.splits if_splits)
  then have ok2: "treeOk t2"
    using ok1 treeOk_tryStep[OF ok1, of target] treeOk_connect[of target t1 _ t2]
    by (auto simp: RRT_members split: if_splits)
  from assms(1) show ?thesis
    unfolding planSingleTreeRrt_body_pass[OF d tgt ext] using ok2
    by (auto simp: RRT_members split: if_splits)
qed

text \<open>
  With the tree class \<open>RRT\<close> and at least one start, a success of the single-tree planner
  puts a trace in front of what the path list held; the trace ends in the configuration
  of the active node, whose gap to the goal is below \<open>stepSize\<close>.
\<close>

lemma single_tree_success_trace:
  assumes run: "planSingleTreeRrt (RRT E sampler s0) G P w dofs start goal path = Some (True, path', P')"
    and start: "start \<noteq> []"
  shows "\<exists>t tr. start_rrt P' = Some t \<and> path' = tr @ path \<and> tr \<noteq> [] \<and>
           last tr = mConfigs t ! mActiveNode t \<and> last tr \<in> set (mConfigs t) \<and>
           gap (last tr) goal < stepSize P"
proof -
  let ?R = "RRT E sampler s0"
  let ?t0 = "case start_rrt P of None \<Rightarrow> R_new ?R w dofs start (stepSize P)
             | Some t \<Rightarrow> R_reset ?R t w dofs start (stepSize P)"
  from run obtain t' g' where loop:
    "while_loop (\<lambda>(t, g, numNodes). numNodes \<le> maxNodes P) (planSingleTreeRrt_body ?R G P goal path)
       (\<lambda>(t, g, numNodes). (False, path, t, g)) (?t0, mMT P, R_getSize ?R ?t0)
     = Some (True, path', t', g')" and P': "P' = P\<lparr>start_rrt := Some t', mMT := g'\<rparr>"
    by (auto simp: planSingleTreeRrt_def Let_def split: option.splits)
  have ok0: "treeOk ?t0"
    using start by (auto simp: RRT_members RRT_reset_def treeOk_new split: option.split)
  have "case (True, path', t', g') of (res, p, t, g) \<Rightarrow>
          res \<longrightarrow> treeOk t \<and> RRT_getGap goal t < stepSize P \<and>
                  p = RRT_tracePath (mActiveNode t) path False t"
  proof (rule while_loop_rule[OF loop, where I = "\<lambda>(t, g, n). treeOk t"])
    show "case (?t0, mMT P, R_getSize ?R ?t0) of (t, g, n) \<Rightarrow> treeOk t" using ok0 by simp
  next
    fix s s'
    assume "case s of (t, g, n) \<Rightarrow> treeOk t" "planSingleTreeRrt_body ?R G P goal path s = Continue s'"
    then show "case s' of (t, g, n) \<Rightarrow> treeOk t"
      by (cases s; cases s') (auto dest: single_body_RRT_ok)
  next
    fix s r
    assume "case s of (t, g, n) \<Rightarrow> treeOk t" "planSingleTreeRrt_body ?R G P goal path s = Return r"
    then show "case r of (res, p, t, g) \<Rightarrow>
          res \<longrightarrow> treeOk t \<and> RRT_getGap goal t < stepSize P \<and>
                  p = RRT_tracePath (mActiveNode t) path False t"
      by (cases s; cases r) (auto dest: single_body_RRT_return)
  next
    fix s :: "'a tree \<times> 'b \<times> nat"
    show "case case s of (t, g, numNodes) \<Rightarrow> (False, path, t, g) of (res, p, t, g) \<Rightarrow>
          res \<longrightarrow> treeOk t \<and> RRT_getGap goal t < stepSize P \<and>
                  p = RRT_tracePath (mActiveNode t) path False t"
      by (cases s) simp
  qed
  then have ok: "treeOk t'" and gp: "RRT_getGap goal t' < stepSize P"
    and p: "path' = RRT_tracePath (mActiveNode t') path False t'" by simp_all
  from treeOk_trace[OF ok, of path] p obtain tr
    where "path' = tr @ path" "tr \<noteq> []" "last tr = mConfigs t' ! mActiveNode t'" by auto
  moreover from ok have "mConfigs t' ! mActiveNode t' \<in> set (mConfigs t')"
    by (simp add: treeOk_def)
  ultimately show ?thesis
    using gp P' by (auto simp: RRT_getGap_def)
qed

text \<open>
  C7, as stated, fails in its second half. The path list is a parameter the planner
  writes into and never clears, and the trace is put in front of what it holds. Free
  space, from 0 to 5 with steps of 1 and the goal as every target, with the list \<open>[9]\<close>
  passed in: the planner succeeds and the returned path is 0, 1, 2, 3, 4, 5, 9, whose
  last configuration has gap 4 to the goal, at step size 1.
\<close>

theorem single_tree_success_nonempty_list_counterexample:
  "returned (planPath freeWorld (RRT freeWorld lineSampler 0) counterEngine
      (PathPlanner_new counterEngine 0 False False 1 100 1) [7] [0] [[0]] [[5]] [[9]])
     = Some (True, [[0], [1], [2], [3], [4], [5], [9]]) \<and>
   gap (last [[0], [1], [2], [3], [4], [5], [9]]) [5] = 4 \<and>
   stepSize (PathPlanner_new counterEngine 0 False False 1 100 1 :: (nat tree, nat) PathPlanner) = 1"
  by (simp add: run_defs ex_defs)

text \<open>
  C7, amended. With the tree class \<open>RRT\<close> and at least one start, the single-tree planner
  reports success only when some node of its tree has a gap to the goal strictly below
  \<open>stepSize\<close>; and whenever it succeeds on a path list that was passed in empty, the
  last configuration of the returned path has a gap to the goal strictly below
  \<open>stepSize\<close>.
\<close>

theorem single_tree_success_within_step:
  assumes run: "planSingleTreeRrt (RRT E sampler s0) G P w dofs start goal path = Some (True, path', P')"
    and start: "start \<noteq> []"
  shows "(\<exists>t. start_rrt P' = Some t \<and> (\<exists>q\<in>set (mConfigs t). gap q goal < stepSize P)) \<and>
         (path = [] \<longrightarrow> path' \<noteq> [] \<and> gap (last path') goal < stepSize P)"
  using single_tree_success_trace[OF run start] by auto

text \<open>
  The same run with an empty list: success with the path 0, 1, 2, 3, 4, 5; the node 5
  is in the tree and the last configuration has gap 0 to the goal.
\<close>

theorem single_tree_success_within_step_witness:
  "\<exists>P' t. planSingleTreeRrt (RRT freeWorld lineSampler 0) counterEngine
           (PathPlanner_new counterEngine 0 False False 1 100 1) [5] [0] [[0]] [5] []
         = Some (True, [[0], [1], [2], [3], [4], [5]], P') \<and>
        start_rrt P' = Some t \<and> [5] \<in> set (mConfigs t) \<and>
        gap (last [[0], [1], [2], [3], [4], [5]]) [5] < 1"
proof -
  obtain P' where run:
    "planSingleTreeRrt (RRT freeWorld lineSampler 0) counterEngine
       (PathPlanner_new counterEngine 0 False False 1 100 1) [5] [0] [[0]] [5] []
     = Some (True, [[0], [1], [2], [3], [4], [5]], P')"
    and tree: "map_option mConfigs (start_rrt P') = Some [[0], [1], [2], [3], [4], [5]]"
    by (simp add: run_defs ex_defs)
  have start: "[[0::real]] \<noteq> []" by simp
  from single_tree_success_within_step[OF run start] tree run show ?thesis
    by (auto simp: PathPlanner_new_def)
qed

subsection \<open>The path of the bidirectional planner\<close>

text \<open>
  The parent chain starts at the node and goes from each node to its parent.
\<close>

lemma parentChain_links:
  "Suc i < length (parentChain ps n) \<Longrightarrow>
     ps ! (parentChain ps n ! i) = Some (parentChain ps n ! Suc i)"
proof (induction ps n arbitrary: i rule: parentChain.induct)
  case (1 ps n)
  show ?case
  proof (cases "n < length ps")
    case False
    with "1.prems" show ?thesis by (simp add: parentChain.simps)
  next
    case True
    show ?thesis
    proof (cases "ps ! n")
      case None
      with True "1.prems" show ?thesis by (simp add: parentChain.simps)
    next
      case (Some p)
      show ?thesis
      proof (cases "p < n")
        case False
        with True Some "1.prems" show ?thesis by (simp add: parentChain.simps)
      next
        case lt: True
        then have eq: "parentChain ps n = n # parentChain ps p"
          using True Some by (subst parentChain.simps) simp
        show ?thesis
        proof (cases i)
          case 0
          have "\<exists>rest. parentChain ps p = p # rest"
            using "1.prems" eq 0 by (subst parentChain.simps) (auto split: option.splits if_splits simp: parentChain.simps[of ps p])
          with eq 0 Some show ?thesis by auto
        next
          case (Suc j)
          with "1.prems" eq have "Suc j < length (parentChain ps p)" by simp
          from "1.IH"[OF True Some lt this] eq Suc show ?thesis by simp
        qed
      qed
    qed
  qed
qed

lemma bidirectional_body_return:
  assumes "planBidirectionalRrt_body R G P goal path s = Return (Inr (res, path', ts', tg', g'))"
  shows "res \<and> path' = R_tracePath R (R_mActiveNode R tg')
                  (R_tracePath R (R_mActiveNode R ts') path False ts') True tg'"
  using assms
  by (auto simp: planBidirectionalRrt_body_def Let_def split: prod.splits option.splits if_splits)

lemma bidirectional_success_traces:
  assumes "planBidirectionalRrt R G P w dofs start goal path = Some (Inr (True, path', P'))"
  shows "\<exists>ts tg. start_rrt P' = Some ts \<and> goal_rrt P' = Some tg \<and>
           path' = R_tracePath R (R_mActiveNode R tg)
                     (R_tracePath R (R_mActiveNode R ts) path False ts) True tg"
proof -
  from assms obtain s0 ts' tg' g' where run:
    "while_loop (\<lambda>(fwd, ts, tg, g, numNodes). numNodes < maxNodes P)
       (planBidirectionalRrt_body R G P goal path)
       (\<lambda>(fwd, ts, tg, g, numNodes). Inr (False, path, ts, tg, g)) s0
     = Some (Inr (True, path', ts', tg', g'))"
    and P': "P' = P\<lparr>start_rrt := Some ts', goal_rrt := Some tg', mMT := g'\<rparr>"
    by (auto simp: planBidirectionalRrt_def Let_def split: option.splits sum.splits)
  have "case (Inr (True, path', ts', tg', g') :: fault + _) of
          Inl e \<Rightarrow> True
        | Inr (res, p, ts, tg, g) \<Rightarrow>
            res \<longrightarrow> p = R_tracePath R (R_mActiveNode R tg)
                           (R_tracePath R (R_mActiveNode R ts) path False ts) True tg"
  proof (rule while_loop_rule[OF run, where I = "\<lambda>_. True" and
        Q = "\<lambda>r::fault + _. case r of
          Inl e \<Rightarrow> True
        | Inr (res, p, ts, tg, g) \<Rightarrow>
            res \<longrightarrow> p = R_tracePath R (R_mActiveNode R tg)
                           (R_tracePath R (R_mActiveNode R ts) path False ts) True tg"])
    fix s r
    assume "planBidirectionalRrt_body R G P goal path s = Return r"
    then show "case r of
          Inl e \<Rightarrow> True
        | Inr (res, p, ts, tg, g) \<Rightarrow>
            res \<longrightarrow> p = R_tracePath R (R_mActiveNode R tg)
                           (R_tracePath R (R_mActiveNode R ts) path False ts) True tg"
      by (auto split: sum.splits dest: bidirectional_body_return)
  qed (auto split: prod.splits)
  with P' show ?thesis by simp
qed

text \<open>
  With the tree class \<open>RRT\<close>, a success of the bidirectional planner puts the trace of
  the start tree, from its root to its active node, in front of what the path list held,
  and the trace of the goal tree, from its active node to its root, behind it.
\<close>

lemma bidirectional_success_splice:
  assumes "planBidirectionalRrt (RRT E sampler s0) G P w dofs start goal path
             = Some (Inr (True, path', P'))"
  shows "\<exists>ts tg. start_rrt P' = Some ts \<and> goal_rrt P' = Some tg \<and>
           path' = rev (nodeToRoot ts (mActiveNode ts)) @ path @ nodeToRoot tg (mActiveNode tg)"
  using bidirectional_success_traces[OF assms]
  by (auto simp: RRT_members RRT_tracePath_def)

text \<open>
  C8, as stated, fails. The path list is a parameter the planner writes into and never
  clears. The run on \<open>walledWorld\<close> from 0 to 1 with the list \<open>[9]\<close> passed in: the
  trace of the start tree is 0, 1 and the trace of the goal tree is 1, but the returned
  path is 0, 1, 9, 1, not the one trace followed by the other.
\<close>

theorem bidirectional_nonempty_list_counterexample:
  "planBidirectionalRrt (RRT walledWorld lineSampler 0) counterEngine walledPlanner
       [1] [0] [[0]] [[1]] [[9]]
     = Some (Inr (True, [[0], [1], [9], [1]],
         walledPlanner\<lparr>start_rrt := Some (snd (RRT_tryStep [1] walledStart)),
                        goal_rrt := Some (walledGoal\<lparr>mSampler := 1\<rparr>), mMT := 6\<rparr>)) \<and>
   rev (nodeToRoot (snd (RRT_tryStep [1] walledStart))
          (mActiveNode (snd (RRT_tryStep [1] walledStart)))) = [[0], [1]] \<and>
   nodeToRoot (walledGoal\<lparr>mSampler := 1\<rparr>) (mActiveNode (walledGoal\<lparr>mSampler := 1\<rparr>)) = [[1]]"
  by (simp add: run_defs ex_defs)

text \<open>
  C8, amended. When the bidirectional planner succeeds, with the tree class \<open>RRT\<close>, on a
  path list that was passed in empty, the returned path is the trace of the start tree
  from its active node to its root in root-to-node order, followed by the reverse trace
  (node-to-root order) of the goal tree from its active node to its root: start, meeting
  point, goal.
\<close>

theorem bidirectional_success_path:
  assumes "planBidirectionalRrt (RRT E sampler s0) G P w dofs start goal []
             = Some (Inr (True, path', P'))"
  shows "\<exists>ts tg. start_rrt P' = Some ts \<and> goal_rrt P' = Some tg \<and>
           path' = rev (nodeToRoot ts (mActiveNode ts)) @ nodeToRoot tg (mActiveNode tg)"
  using bidirectional_success_splice[OF assms] by simp

text \<open>
  Free space, from 0 to 3 with steps of 1, both trees growing: the goal tree first
  repeats its root 3, the start tree steps to 1 and then to 2, and the goal tree reaches
  2 from 3. The start tree is traced 0, 1, 2 and the goal tree 2, 3, node first: the
  path is 0, 1, 2, 2, 3.
\<close>

theorem bidirectional_success_path_witness:
  "\<exists>P' ts tg. planBidirectionalRrt (RRT freeWorld lineSampler 0) counterEngine
                 (PathPlanner_new counterEngine 0 True False 1 10 (3 / 10))
                 [3] [0] [[0]] [[3]] [] = Some (Inr (True, [[0], [1], [2], [2], [3]], P')) \<and>
     start_rrt P' = Some ts \<and> goal_rrt P' = Some tg \<and>
     rev (nodeToRoot ts (mActiveNode ts)) = [[0], [1], [2]] \<and>
     nodeToRoot tg (mActiveNode tg) = [[2], [3]]"
proof -
  let ?ts = "snd (RRT_tryStep [3] (snd (RRT_tryStep [3] (RRT_new freeWorld 0 [3] [0] [[0]] 1)))) :: nat tree"
  let ?tg = "snd (RRT_tryStep [2] (snd (RRT_tryStep [3] (RRT_new freeWorld 0 [3] [0] [[3]] 1)))) :: nat tree"
  obtain P' where run:
    "planBidirectionalRrt (RRT freeWorld lineSampler 0) counterEngine
       (PathPlanner_new counterEngine 0 True False 1 10 (3 / 10))
       [3] [0] [[0]] [[3]] [] = Some (Inr (True, [[0], [1], [2], [2], [3]], P'))"
    and trees: "start_rrt P' = Some ?ts" "goal_rrt P' = Some ?tg"
    by (simp add: run_defs ex_defs)
  from bidirectional_success_path[OF run] obtain ts tg
    where t: "start_rrt P' = Some ts" "goal_rrt P' = Some tg"
      and p: "[[0], [1], [2], [2], [3]] = rev (nodeToRoot ts (mActiveNode ts)) @ nodeToRoot tg (mActiveNode tg)"
    by blast
  from t trees have "tg = ?tg" by simp
  then have "nodeToRoot tg (mActiveNode tg) = [[2], [3]]"
    by (simp add: run_defs ex_defs)
  with p t run show ?thesis by auto
qed

subsection \<open>The engine and its seed\<close>

text \<open>
  The constructors (lines 47 and 50-56) take no seed: the engine is seeded with the
  value of the random device. Two planners made with the same constructor arguments,
  whose random devices gave 0 and 5, run on the same input (free space, from 0 to -3/2,
  steps of 1, a budget of one node, bias 3/10): the first draws 0, aims at the goal and
  succeeds with the path 0, -1; the second draws 1/2, aims at a random configuration and
  fails.
\<close>

lemma unseeded_planners_differ:
  "returned (planPath freeWorld (RRT freeWorld lineSampler 0) counterEngine
      (PathPlanner_new counterEngine 0 False False 1 1 (3 / 10)) [7] [0] [[0]] [[- 3 / 2]] []) = Some (True, [[0], [- 1]]) \<and>
   returned (planPath freeWorld (RRT freeWorld lineSampler 0) counterEngine
      (PathPlanner_new counterEngine 5 False False 1 1 (3 / 10)) [7] [0] [[0]] [[- 3 / 2]] []) = Some (False, [])"
  by (simp add: run_defs ex_defs)

text \<open>
  C4, as stated, fails. No constructor takes a seed; and were the engine of two planners
  seeded with the same value, they would still not behave alike: the random
  configurations of lines 199 and 269 are drawn by the tree, from a sampler of its own
  that the engine's seed does not reach. Two planners with the same settings and the same
  engine, seeded with the same value 5, run on the same input (free space, from 0 to 3,
  steps of 2, bias 3/10), their trees' samplers in the states 0 and 1: both draw 1/2 and
  aim at a random configuration, 5/2 for the one and 5/3 for the other, and return the
  paths 0, 2 and 0, 5/3.
\<close>

theorem same_seed_planners_differ:
  "returned (planPath freeWorld (RRT freeWorld lineSampler 0) counterEngine
      (PathPlanner_new counterEngine 5 False False 2 10 (3 / 10)) [7] [0] [[0]] [[3]] [])
     = Some (True, [[0], [2]]) \<and>
   returned (planPath freeWorld (RRT freeWorld lineSampler 1) counterEngine
      (PathPlanner_new counterEngine 5 False False 2 10 (3 / 10)) [7] [0] [[0]] [[3]] [])
     = Some (True, [[0], [5 / 3]])"
  by (simp add: run_defs ex_defs)

lemma sameDraws_step:
  assumes "sameDraws G1 g1 G2 g2"
    and "mDistribution G1 g1 = (r1, g1')" and "mDistribution G2 g2 = (r2, g2')"
  shows "r1 = r2 \<and> sameDraws G1 g1' G2 g2'"
proof
  from assms(1) have all: "draws G1 g1 k = draws G2 g2 k" for k by (simp add: sameDraws_def)
  from all[of 0] assms(2,3) show "r1 = r2" by simp
  show "sameDraws G1 g1' G2 g2'"
    unfolding sameDraws_def
  proof
    fix k
    from all[of "Suc k"] assms(2,3) show "draws G1 g1' k = draws G2 g2' k" by simp
  qed
qed

lemma single_body_related:
  assumes d: "sameDraws G1 g1 G2 g2"
    and P: "connect P1 = connect P2" "stepSize P1 = stepSize P2" "goalBias P1 = goalBias P2"
  shows "rel_flow (\<lambda>s1 s2. fst s1 = fst s2 \<and> snd (snd s1) = snd (snd s2) \<and>
                     sameDraws G1 (fst (snd s1)) G2 (fst (snd s2)))
           (\<lambda>r1 r2. fst r1 = fst r2 \<and> fst (snd r1) = fst (snd r2) \<and>
                     fst (snd (snd r1)) = fst (snd (snd r2)))
           (planSingleTreeRrt_body R G1 P1 goal path (t, g1, n))
           (planSingleTreeRrt_body R G2 P2 goal path (t, g2, n))"
proof -
  obtain r1 g1' where d1: "mDistribution G1 g1 = (r1, g1')" by (cases "mDistribution G1 g1")
  obtain r2 g2' where d2: "mDistribution G2 g2 = (r2, g2')" by (cases "mDistribution G2 g2")
  from sameDraws_step[OF d d1 d2] have r: "r2 = r1" and d': "sameDraws G1 g1' G2 g2'" by simp_all
  show ?thesis
    using d1 d2 r d' P
    by (auto simp: planSingleTreeRrt_body_def split: prod.splits option.splits)
qed

lemma single_related:
  assumes d: "sameDraws G1 (mMT P1) G2 (mMT P2)"
    and P: "connect P1 = connect P2" "stepSize P1 = stepSize P2" "goalBias P1 = goalBias P2"
       "maxNodes P1 = maxNodes P2" "start_rrt P1 = start_rrt P2"
  shows "rel_option (\<lambda>r1 r2. fst r1 = fst r2 \<and> fst (snd r1) = fst (snd r2))
           (planSingleTreeRrt R G1 P1 w dofs start goal path)
           (planSingleTreeRrt R G2 P2 w dofs start goal path)"
proof -
  let ?t0 = "case start_rrt P2 of None \<Rightarrow> R_new R w dofs start (stepSize P2)
             | Some t \<Rightarrow> R_reset R t w dofs start (stepSize P2)"
  have "rel_option (\<lambda>r1 r2. fst r1 = fst r2 \<and> fst (snd r1) = fst (snd r2) \<and>
                     fst (snd (snd r1)) = fst (snd (snd r2)))
          (while_loop (\<lambda>(t, g, numNodes). numNodes \<le> maxNodes P1)
             (planSingleTreeRrt_body R G1 P1 goal path)
             (\<lambda>(t, g, numNodes). (False, path, t, g)) (?t0, mMT P1, R_getSize R ?t0))
          (while_loop (\<lambda>(t, g, numNodes). numNodes \<le> maxNodes P2)
             (planSingleTreeRrt_body R G2 P2 goal path)
             (\<lambda>(t, g, numNodes). (False, path, t, g)) (?t0, mMT P2, R_getSize R ?t0))"
  proof (rule while_loop_related[where
        Rel = "\<lambda>s1 s2. fst s1 = fst s2 \<and> snd (snd s1) = snd (snd s2) \<and>
                     sameDraws G1 (fst (snd s1)) G2 (fst (snd s2))"])
    fix s1 :: "'c \<times> 'a \<times> nat" and s2 :: "'c \<times> 'b \<times> nat"
    assume rel: "fst s1 = fst s2 \<and> snd (snd s1) = snd (snd s2) \<and>
                     sameDraws G1 (fst (snd s1)) G2 (fst (snd s2))"
    then obtain t g1 g2 n where s: "s1 = (t, g1, n)" "s2 = (t, g2, n)" and sd: "sameDraws G1 g1 G2 g2"
      by (cases s1; cases s2) auto
    show "rel_flow (\<lambda>s1 s2. fst s1 = fst s2 \<and> snd (snd s1) = snd (snd s2) \<and>
                     sameDraws G1 (fst (snd s1)) G2 (fst (snd s2)))
           (\<lambda>r1 r2. fst r1 = fst r2 \<and> fst (snd r1) = fst (snd r2) \<and>
                     fst (snd (snd r1)) = fst (snd (snd r2)))
           (planSingleTreeRrt_body R G1 P1 goal path s1)
           (planSingleTreeRrt_body R G2 P2 goal path s2)"
      unfolding s by (rule single_body_related[OF sd P(1-3)])
  qed (use d P in \<open>auto split: prod.splits\<close>)
  then show ?thesis
    using P by (auto simp: planSingleTreeRrt_def Let_def option.rel_sel split: option.splits)
qed

lemma bidirectional_body_related:
  assumes d: "sameDraws G1 g1 G2 g2"
    and P: "connect P1 = connect P2" "stepSize P1 = stepSize P2" "goalBias P1 = goalBias P2"
  shows "rel_flow (\<lambda>s1 s2. fst s1 = fst s2 \<and> fst (snd s1) = fst (snd s2) \<and>
                     fst (snd (snd s1)) = fst (snd (snd s2)) \<and>
                     snd (snd (snd (snd s1))) = snd (snd (snd (snd s2))) \<and>
                     sameDraws G1 (fst (snd (snd (snd s1)))) G2 (fst (snd (snd (snd s2)))))
           (rel_sum (=) (\<lambda>r1 r2. fst r1 = fst r2 \<and> fst (snd r1) = fst (snd r2) \<and>
                     fst (snd (snd r1)) = fst (snd (snd r2)) \<and>
                     fst (snd (snd (snd r1))) = fst (snd (snd (snd r2)))))
           (planBidirectionalRrt_body R G1 P1 goal path (fwd, ts, tg, g1, n))
           (planBidirectionalRrt_body R G2 P2 goal path (fwd, ts, tg, g2, n))"
proof -
  obtain r g1' where d1: "mDistribution G1 g1 = (r, g1')" by (cases "mDistribution G1 g1")
  obtain r2 g2' where d2': "mDistribution G2 g2 = (r2, g2')" by (cases "mDistribution G2 g2")
  from sameDraws_step[OF d d1 d2'] have "r2 = r" and d': "sameDraws G1 g1' G2 g2'" by simp_all
  with d2' have d2: "mDistribution G2 g2 = (r, g2')" by simp
  show ?thesis
  proof (cases "r < goalBias P1 \<and> goal = []")
    case True
    then have "r < goalBias P2 \<and> goal = []" using P by simp
    show ?thesis
      by (simp add: planBidirectionalRrt_body_no_goal[OF d1 True]
                    planBidirectionalRrt_body_no_goal[OF d2 \<open>r < goalBias P2 \<and> goal = []\<close>])
  next
    case ng1: False
    then have ng2: "\<not> (r < goalBias P2 \<and> goal = [])" using P by simp
    obtain target rrt1a where t1: "(if r < goalBias P1 then (goal ! 0, if fwd then tg else ts)
          else R_getRandomConfig R (if fwd then tg else ts)) = (target, rrt1a)"
      by (cases "if r < goalBias P1 then (goal ! 0, if fwd then tg else ts)
          else R_getRandomConfig R (if fwd then tg else ts)")
    then have t2: "(if r < goalBias P2 then (goal ! 0, if fwd then tg else ts)
          else R_getRandomConfig R (if fwd then tg else ts)) = (target, rrt1a)"
      using P by simp
    show ?thesis
    proof (cases "if connect P1 then map_option snd (R_connect R target rrt1a)
          else Some (snd (R_tryStep R target rrt1a))")
      case None
      then have "(if connect P2 then map_option snd (R_connect R target rrt1a)
          else Some (snd (R_tryStep R target rrt1a))) = None" using P by simp
      then show ?thesis
        by (simp add: planBidirectionalRrt_body_hangs_first[OF d1 ng1 t1 None]
                      planBidirectionalRrt_body_hangs_first[OF d2 ng2 t2])
    next
      case e1: (Some rrt1b)
      then have e2: "(if connect P2 then map_option snd (R_connect R target rrt1a)
          else Some (snd (R_tryStep R target rrt1a))) = Some rrt1b" using P by simp
      show ?thesis
      proof (cases "R_mActiveNode R rrt1b < length (R_mConfigs R rrt1b)")
        case False
        show ?thesis
          by (simp add: planBidirectionalRrt_body_no_active[OF d1 ng1 t1 e1 False]
                        planBidirectionalRrt_body_no_active[OF d2 ng2 t2 e2 False])
      next
        case act: True
        show ?thesis
        proof (cases "if connect P1
          then R_connect R (R_mConfigs R rrt1b ! R_mActiveNode R rrt1b) (if fwd then ts else tg)
          else (case R_tryStep R (R_mConfigs R rrt1b ! R_mActiveNode R rrt1b)
                       (if fwd then ts else tg) of
                  (r, rrt2b) \<Rightarrow> Some (r = STEP_REACHED, rrt2b))")
          case None
          then have "(if connect P2
            then R_connect R (R_mConfigs R rrt1b ! R_mActiveNode R rrt1b) (if fwd then ts else tg)
            else (case R_tryStep R (R_mConfigs R rrt1b ! R_mActiveNode R rrt1b)
                       (if fwd then ts else tg) of
                  (r, rrt2b) \<Rightarrow> Some (r = STEP_REACHED, rrt2b))) = None" using P by simp
          then show ?thesis
            by (simp add: planBidirectionalRrt_body_hangs_second[OF d1 ng1 t1 e1 act None]
                          planBidirectionalRrt_body_hangs_second[OF d2 ng2 t2 e2 act])
        next
          case (Some mr)
          obtain treesMet rrt2b where mr: "mr = (treesMet, rrt2b)" by (cases mr)
          from Some mr have o1: "(if connect P1
            then R_connect R (R_mConfigs R rrt1b ! R_mActiveNode R rrt1b) (if fwd then ts else tg)
            else (case R_tryStep R (R_mConfigs R rrt1b ! R_mActiveNode R rrt1b)
                       (if fwd then ts else tg) of
                  (r, rrt2b) \<Rightarrow> Some (r = STEP_REACHED, rrt2b))) = Some (treesMet, rrt2b)" by simp
          then have o2: "(if connect P2
            then R_connect R (R_mConfigs R rrt1b ! R_mActiveNode R rrt1b) (if fwd then ts else tg)
            else (case R_tryStep R (R_mConfigs R rrt1b ! R_mActiveNode R rrt1b)
                       (if fwd then ts else tg) of
                  (r, rrt2b) \<Rightarrow> Some (r = STEP_REACHED, rrt2b))) = Some (treesMet, rrt2b)"
            using P by simp
          show ?thesis
            unfolding planBidirectionalRrt_body_pass[OF d1 ng1 t1 e1 act o1]
                      planBidirectionalRrt_body_pass[OF d2 ng2 t2 e2 act o2]
            using d' by simp
        qed
      qed
    qed
  qed
qed


lemma bidirectional_related:
  assumes d: "sameDraws G1 (mMT P1) G2 (mMT P2)"
    and P: "connect P1 = connect P2" "stepSize P1 = stepSize P2" "goalBias P1 = goalBias P2"
       "maxNodes P1 = maxNodes P2" "start_rrt P1 = start_rrt P2" "goal_rrt P1 = goal_rrt P2"
  shows "rel_option (rel_sum (=) (\<lambda>r1 r2. fst r1 = fst r2 \<and> fst (snd r1) = fst (snd r2)))
           (planBidirectionalRrt R G1 P1 w dofs start goal path)
           (planBidirectionalRrt R G2 P2 w dofs start goal path)"
proof -
  let ?ts0 = "case start_rrt P2 of None \<Rightarrow> R_new R w dofs start (stepSize P2)
             | Some t \<Rightarrow> R_reset R t w dofs start (stepSize P2)"
  let ?tg0 = "case goal_rrt P2 of None \<Rightarrow> R_new R w dofs goal (stepSize P2)
             | Some t \<Rightarrow> R_reset R t w dofs goal (stepSize P2)"
  let ?Rel = "\<lambda>s1 s2. fst s1 = fst s2 \<and> fst (snd s1) = fst (snd s2) \<and>
                     fst (snd (snd s1)) = fst (snd (snd s2)) \<and>
                     snd (snd (snd (snd s1))) = snd (snd (snd (snd s2))) \<and>
                     sameDraws G1 (fst (snd (snd (snd s1)))) G2 (fst (snd (snd (snd s2))))"
  let ?Q = "rel_sum (=) (\<lambda>r1 r2. fst r1 = fst r2 \<and> fst (snd r1) = fst (snd r2) \<and>
                     fst (snd (snd r1)) = fst (snd (snd r2)) \<and>
                     fst (snd (snd (snd r1))) = fst (snd (snd (snd r2))))"
  have "rel_option ?Q
          (while_loop (\<lambda>(fwd, ts, tg, g, numNodes). numNodes < maxNodes P1)
             (planBidirectionalRrt_body R G1 P1 goal path)
             (\<lambda>(fwd, ts, tg, g, numNodes). Inr (False, path, ts, tg, g))
             (True, ?ts0, ?tg0, mMT P1, R_getSize R ?ts0 + R_getSize R ?tg0))
          (while_loop (\<lambda>(fwd, ts, tg, g, numNodes). numNodes < maxNodes P2)
             (planBidirectionalRrt_body R G2 P2 goal path)
             (\<lambda>(fwd, ts, tg, g, numNodes). Inr (False, path, ts, tg, g))
             (True, ?ts0, ?tg0, mMT P2, R_getSize R ?ts0 + R_getSize R ?tg0))"
  proof (rule while_loop_related[where Rel = ?Rel])
    fix s1 :: "bool \<times> 'c \<times> 'c \<times> 'a \<times> nat" and s2 :: "bool \<times> 'c \<times> 'c \<times> 'b \<times> nat"
    assume rel: "?Rel s1 s2"
    then obtain fwd ts tg g1 g2 n where s: "s1 = (fwd, ts, tg, g1, n)" "s2 = (fwd, ts, tg, g2, n)"
      and sd: "sameDraws G1 g1 G2 g2"
      by (cases s1; cases s2) auto
    show "rel_flow ?Rel ?Q (planBidirectionalRrt_body R G1 P1 goal path s1)
           (planBidirectionalRrt_body R G2 P2 goal path s2)"
      unfolding s by (rule bidirectional_body_related[OF sd P(1-3)])
  qed (use d P in \<open>auto split: prod.splits\<close>)
  then show ?thesis
    using P
    by (auto simp: planBidirectionalRrt_def Let_def option.rel_sel split: option.splits sum.splits)
qed

lemma returned_planPath:
  assumes "sift E dofs start w = (fs, w1)" and "sift E dofs goal w1 = (fg, w2)"
  shows "returned (planPath E R G P w dofs start goal path) =
           (if fs = [] \<or> fg = [] then Some (False, path)
            else if bidirectional P
            then (case planBidirectionalRrt R G P w2 dofs fs fg path of
                    Some (Inr r) \<Rightarrow> Some (fst r, fst (snd r)) | _ \<Rightarrow> None)
            else (case planSingleTreeRrt R G P w2 dofs fs (hd fg) path of
                    Some r \<Rightarrow> Some (fst r, fst (snd r)) | None \<Rightarrow> None))"
  by (simp add: planPath_sifted[OF assms] returned_def split: option.splits sum.splits prod.splits)

text \<open>
  C4, amended. The constructors accept no seed: the engine a planner owns is seeded from
  the random device, and the sampler of its trees is not seeded by the planner at all.
  What a planner returns depends on the engine only through its draws: two planners
  constructed with the same settings and over the same tree class \<open>R\<close> (for the class
  \<open>RRT\<close>: the same sampler, started in the same state), whose engines yield the same
  sequence of draws (as they do when the random device gave both the same value), run on
  identical inputs, return the same flag and the same path, or both do not return.
\<close>

theorem planPath_same_draws:
  assumes "sameDraws G1 (mt19937 G1 rd1) G2 (mt19937 G2 rd2)"
  shows "returned (planPath E R G1 (PathPlanner_new G1 rd1 bi cn ss mx gb) w dofs start goal path)
       = returned (planPath E R G2 (PathPlanner_new G2 rd2 bi cn ss mx gb) w dofs start goal path)"
proof -
  let ?P1 = "PathPlanner_new G1 rd1 bi cn ss mx gb :: ('c, 'a) PathPlanner"
  let ?P2 = "PathPlanner_new G2 rd2 bi cn ss mx gb :: ('c, 'b) PathPlanner"
  have d: "sameDraws G1 (mMT ?P1) G2 (mMT ?P2)"
    using assms by (simp add: PathPlanner_new_def)
  have P: "connect ?P1 = connect ?P2" "stepSize ?P1 = stepSize ?P2" "goalBias ?P1 = goalBias ?P2"
       "maxNodes ?P1 = maxNodes ?P2" "start_rrt ?P1 = start_rrt ?P2" "goal_rrt ?P1 = goal_rrt ?P2"
    and b: "bidirectional ?P1 = bidirectional ?P2"
    by (simp_all add: PathPlanner_new_def)
  obtain fs w1 where s: "sift E dofs start w = (fs, w1)" by (cases "sift E dofs start w")
  obtain fg w2 where g: "sift E dofs goal w1 = (fg, w2)" by (cases "sift E dofs goal w1")
  have single: "(case planSingleTreeRrt R G1 ?P1 w2 dofs fs (hd fg) path of
                    Some r \<Rightarrow> Some (fst r, fst (snd r)) | None \<Rightarrow> None) =
                (case planSingleTreeRrt R G2 ?P2 w2 dofs fs (hd fg) path of
                    Some r \<Rightarrow> Some (fst r, fst (snd r)) | None \<Rightarrow> None)"
    using single_related[OF d P(1-5), of R w2 dofs fs "hd fg" path]
    by (cases "planSingleTreeRrt R G1 ?P1 w2 dofs fs (hd fg) path";
        cases "planSingleTreeRrt R G2 ?P2 w2 dofs fs (hd fg) path") simp_all
  have bidir: "(case planBidirectionalRrt R G1 ?P1 w2 dofs fs fg path of
                    Some (Inr r) \<Rightarrow> Some (fst r, fst (snd r)) | _ \<Rightarrow> None) =
               (case planBidirectionalRrt R G2 ?P2 w2 dofs fs fg path of
                    Some (Inr r) \<Rightarrow> Some (fst r, fst (snd r)) | _ \<Rightarrow> None)"
    using bidirectional_related[OF d P, of R w2 dofs fs fg path]
    by (cases "planBidirectionalRrt R G1 ?P1 w2 dofs fs fg path";
        cases "planBidirectionalRrt R G2 ?P2 w2 dofs fs fg path")
       (auto elim!: rel_sum.cases)
  show ?thesis
    unfolding returned_planPath[OF s g] b single bidir ..
qed

text \<open>
  The counter engine draws \<open>(n mod 10) / 10\<close>: seeded with 5 and with 15 it is in two
  different states that yield the same draws. With the trees' sampler in state 0 for
  both, the two planners of the counterexample's input return the same path 0, 2.
\<close>

lemma draws_counterEngine: "draws counterEngine n k = real ((n + k) mod 10) / 10"
  by (induction k arbitrary: n) (simp_all add: counterEngine_def)

theorem planPath_same_draws_witness:
  "returned (planPath freeWorld (RRT freeWorld lineSampler 0) counterEngine
      (PathPlanner_new counterEngine 5 False False 2 10 (3 / 10)) [7] [0] [[0]] [[3]] []) =
   returned (planPath freeWorld (RRT freeWorld lineSampler 0) counterEngine
      (PathPlanner_new counterEngine 15 False False 2 10 (3 / 10)) [7] [0] [[0]] [[3]] []) \<and>
   returned (planPath freeWorld (RRT freeWorld lineSampler 0) counterEngine
      (PathPlanner_new counterEngine 15 False False 2 10 (3 / 10)) [7] [0] [[0]] [[3]] []) =
     Some (True, [[0], [2]]) \<and>
   mt19937 counterEngine 5 \<noteq> mt19937 counterEngine 15"
proof -
  have "(5 + k) mod 10 = (15 + k) mod 10" for k :: nat
    by presburger
  moreover have "mt19937 counterEngine 5 = 5" "mt19937 counterEngine 15 = 15"
    by (simp_all add: counterEngine_def)
  ultimately
  have "sameDraws counterEngine (mt19937 counterEngine 5) counterEngine (mt19937 counterEngine 15)"
    by (simp add: sameDraws_def draws_counterEngine)
  from planPath_same_draws[OF this, of freeWorld "RRT freeWorld lineSampler 0" False False 2 10
      "3 / 10" "[7]" "[0]" "[[0]]" "[[3]]" "[]"]
  show ?thesis
    by (simp add: run_defs ex_defs)
qed

subsection \<open>Several goals in single-tree mode\<close>

text \<open>
  Sifting leaves the robot at the configuration checked last. The tree classes meant
  here do not look at where the robot stands when they are made or reset (they set the
  robot before every query).
\<close>

lemma sift_world:
  "snd (sift E dofs qs w) = foldl (\<lambda>w q. setPositions E dofs q w) w qs"
proof -
  have "snd (foldl (\<lambda>(feasible, w0) q.
              let w1 = setPositions E dofs q w0
              in (if \<not> checkCollision E w1 then feasible @ [q] else feasible, w1))
           (acc, w) qs) = foldl (\<lambda>w q. setPositions E dofs q w) w qs" for acc
    by (induction qs arbitrary: acc w) (simp_all add: Let_def)
  then show ?thesis by (simp add: sift_def)
qed

lemma R_new_after_sift:
  assumes "\<And>q w'. R_new R (setPositions E dofs q w') dofs = R_new R w' dofs"
  shows "R_new R (snd (sift E dofs qs w)) dofs = R_new R w dofs"
  unfolding sift_world by (induction qs arbitrary: w) (simp_all add: assms)

lemma R_reset_after_sift:
  assumes "\<And>t q w'. R_reset R t (setPositions E dofs q w') dofs = R_reset R t w' dofs"
  shows "R_reset R t (snd (sift E dofs qs w)) dofs = R_reset R t w dofs"
  unfolding sift_world by (induction qs arbitrary: w) (simp_all add: assms)

text \<open>
  C9. In single-tree mode \<open>planPath\<close> hands the single-tree planner the first feasible
  goal only, as bias target and as reference of the success test, and warns when more
  than one feasible goal is left. The flag, the path and the planner object are those of
  \<open>planSingleTreeRrt\<close> run on the first feasible goal from the world as it was at the
  call, for a tree class that does not depend on where sifting left the robot: the other
  goals appear in the warning only, and in the robot's state before the positions are
  restored.
\<close>

theorem single_tree_first_goal_only:
  assumes nb: "\<not> bidirectional P"
    and new: "\<And>q w'. R_new R (setPositions E dofs q w') dofs = R_new R w' dofs"
    and reset: "\<And>t q w'. R_reset R t (setPositions E dofs q w') dofs = R_reset R t w' dofs"
    and s: "sift E dofs start w = (fs, w1)" and fs: "fs \<noteq> []"
    and g: "sift E dofs goal w1 = (g1 # gs, w2)"
  shows "planPath E R G P w dofs start goal path =
           (case planSingleTreeRrt R G P w dofs fs g1 path of
              None \<Rightarrow> None
            | Some (res, path', P') \<Rightarrow>
                Some (Inr \<lparr>result = res, path_out = path', planner_out = P',
                        world_out = setPositions E dofs (getPositions E dofs w) w2,
                        warnings = (if gs = [] then []
                          else [''WARNING: planPath is using ONLY the first goal!''])\<rparr>))"
proof -
  have w2: "w2 = snd (sift E dofs goal (snd (sift E dofs start w)))"
    using s g by simp
  have n: "R_new R w2 dofs = R_new R w dofs"
    unfolding w2 by (simp add: R_new_after_sift[where R = R and E = E and dofs = dofs, OF new])
  have r: "R_reset R t w2 dofs = R_reset R t w dofs" for t
    unfolding w2 by (simp add: R_reset_after_sift[where R = R and E = E and dofs = dofs, OF reset])
  have "planSingleTreeRrt R G P w2 dofs fs g1 path = planSingleTreeRrt R G P w dofs fs g1 path"
    unfolding planSingleTreeRrt_def n r ..
  then show ?thesis
    using nb fs by (simp add: planPath_sifted[OF s g])
qed

text \<open>
  Free space, from 0 with the goals 5 and 6: the path ends at 5, and the warning is
  written.
\<close>

theorem single_tree_first_goal_only_witness:
  "\<exists>out. planPath freeWorld (RRT freeWorld lineSampler 0) counterEngine
           (PathPlanner_new counterEngine 0 False False 1 100 1) [7] [0] [[0]] [[5], [6]] []
         = Some (Inr out) \<and> result out \<and> path_out out = [[0], [1], [2], [3], [4], [5]] \<and>
        warnings out = [''WARNING: planPath is using ONLY the first goal!'']"
proof -
  let ?R = "RRT freeWorld lineSampler 0 :: (nat tree, config) rrt_class"
  let ?P = "PathPlanner_new counterEngine 0 False False 1 100 1 :: (nat tree, nat) PathPlanner"
  have nb: "\<not> bidirectional ?P" by (simp add: PathPlanner_new_def)
  have new: "R_new ?R (setPositions freeWorld [0] q w') [0] = R_new ?R w' [0]" for q w'
    by (simp add: RRT_members RRT_new_def freeWorld_def lineWorld_def fun_eq_iff)
  have reset: "R_reset ?R t (setPositions freeWorld [0] q w') [0] = R_reset ?R t w' [0]" for t q w'
    by (simp add: RRT_members RRT_reset_def RRT_new_def freeWorld_def lineWorld_def fun_eq_iff)
  have s: "sift freeWorld [0] [[0]] [7] = ([[0]], [0])"
    by (simp add: sift_def freeWorld_def lineWorld_def)
  have fs: "[[0::real]] \<noteq> []" by simp
  have g: "sift freeWorld [0] [[5], [6]] [0] = ([5] # [[6]], [6])"
    by (simp add: sift_def freeWorld_def lineWorld_def)
  obtain P' where run: "planSingleTreeRrt ?R counterEngine ?P [7] [0] [[0]] [5] []
      = Some (True, [[0], [1], [2], [3], [4], [5]], P')"
    by (simp add: run_defs ex_defs)
  from single_tree_first_goal_only[where P = ?P and R = ?R and E = freeWorld and dofs = "[0]"
      and G = counterEngine and path = "[]", OF nb new reset s fs g]
  show ?thesis
    by (simp add: run)
qed

end
